(* ===== verification/Prelude.thy ===== *)
theory Prelude
  imports Main "HOL-Library.Word" "HOL-Library.AList" "HOL-Library.Multiset"
begin

text \<open>
  Shared vocabulary of the development: Go's unsigned integers as words, byte strings,
  run-time faults (panics, \<open>log.Fatal\<close>) as values of a sum type, slices with their
  capacity, big-endian access as in \<open>encoding/binary\<close>, and Go maps as association
  lists whose order is the (unspecified) order in which \<open>range\<close> visits them.
\<close>

unbundle bit_operations_syntax

type_synonym u8 = "8 word"
type_synonym u16 = "16 word"
type_synonym u32 = "32 word"
type_synonym bytes = "u8 list"

named_theorems wire_simps \<open>reading back what was put on the wire\<close>
named_theorems ring_simps \<open>index arithmetic of the circular buffers\<close>

lemma unat_u8_less: "unat (w :: u8) < 256"
proof -
  have "unat w < 2 ^ LENGTH(8)" by (rule unsigned_less)
  then show ?thesis by simp
qed

lemma unat_u16_less: "unat (w :: u16) < 65536"
proof -
  have "unat w < 2 ^ LENGTH(16)" by (rule unsigned_less)
  then show ?thesis by simp
qed

lemma uint_u16_less: "uint (w :: u16) < 65536"
proof -
  have "uint w < 2 ^ LENGTH(16)" by (rule unsigned_less)
  then show ?thesis by simp
qed

lemma unat_u32_less: "unat (w :: u32) < 4294967296"
proof -
  have "unat w < 2 ^ LENGTH(32)" by (rule unsigned_less)
  then show ?thesis by simp
qed

section \<open>Faults\<close>

text \<open>
  What ends a goroutine, and with it the process: an out-of-range index or slice, a nil
  dereference, a failed \<open>Must\<close> parse, a failed type assertion, \<open>log.Fatal\<close>.
\<close>

datatype fault = RangePanic | NilPanic | ParsePanic | AssertPanic | FatalExit

type_synonym 'a res = "fault + 'a"

definition bindr :: "'a res \<Rightarrow> ('a \<Rightarrow> 'b res) \<Rightarrow> 'b res" where
  "bindr m f = (case m of Inl e \<Rightarrow> Inl e | Inr x \<Rightarrow> f x)"

lemma bindr_simps [simp]:
  "bindr (Inl e) f = Inl e"
  "bindr (Inr x) f = f x"
  by (simp_all add: bindr_def)

lemma bindr_eq_Inr: "bindr m f = Inr y \<longleftrightarrow> (\<exists>x. m = Inr x \<and> f x = Inr y)"
  by (cases m) auto

lemma bindr_eq_Inl: "bindr m f = Inl e \<longleftrightarrow> m = Inl e \<or> (\<exists>x. m = Inr x \<and> f x = Inl e)"
  by (cases m) auto

lemma map_sum_eq_Inr: "map_sum f g s = Inr y \<longleftrightarrow> (\<exists>x. s = Inr x \<and> y = g x)"
  by (cases s) auto

section \<open>Go maps as association lists\<close>

lemma in_set_update: "(x, y) \<in> set (AList.update k v al) \<Longrightarrow> (x, y) = (k, v) \<or> (x, y) \<in> set al"
  by (induction al) (auto split: if_splits)

lemma in_set_delete: "(x, y) \<in> set (AList.delete k al) \<longleftrightarrow> (x, y) \<in> set al \<and> x \<noteq> k"
  by (induction al) auto

text \<open>A map filled in a loop holds, for each key, the last element with that key.\<close>

lemma map_of_foldl_update:
  "map_of (foldl (\<lambda>t x. AList.update (k x) (v x) t) t xs) a =
     (case find (\<lambda>x. k x = a) (rev xs) of None \<Rightarrow> map_of t a | Some x \<Rightarrow> Some (v x))"
  by (induction xs rule: rev_induct) (simp_all add: update_conv')

lemma find_SomeD: "find P xs = Some y \<Longrightarrow> y \<in> set xs \<and> P y"
  by (induction xs) (auto split: if_splits)

lemma find_rev_ex:
  assumes "x \<in> set xs" "P x"
  obtains y where "find P (rev xs) = Some y" "y \<in> set xs" "P y"
proof (cases "find P (rev xs)")
  case None
  with assms show ?thesis by (auto simp: find_None_iff)
next
  case (Some y)
  with find_SomeD [OF Some] that show ?thesis by simp
qed

section \<open>Slices\<close>

text \<open>
  A Go slice is a window on an array: \<open>vis\<close> are its \<open>len\<close> elements, \<open>spare\<close> the
  elements behind them, up to its capacity. A slice expression \<open>s[lo:hi]\<close> is checked
  against the capacity, not against the length, and may bring spare elements back; an
  index expression and \<open>s[lo:]\<close> are checked against the length.
\<close>

record 'a slice =
  vis :: "'a list"
  spare :: "'a list"

definition slice_len :: "'a slice \<Rightarrow> nat" where
  "slice_len s = length (vis s)"

definition slice_cap :: "'a slice \<Rightarrow> nat" where
  "slice_cap s = length (vis s) + length (spare s)"

definition slice_of :: "'a list \<Rightarrow> 'a slice" where
  "slice_of xs = \<lparr>vis = xs, spare = []\<rparr>"

definition slice_range :: "'a slice \<Rightarrow> nat \<Rightarrow> nat \<Rightarrow> 'a slice res" where
  "slice_range s lo hi =
     (if lo \<le> hi \<and> hi \<le> slice_cap s
      then Inr \<lparr>vis = take (hi - lo) (drop lo (vis s @ spare s)), spare = drop hi (vis s @ spare s)\<rparr>
      else Inl RangePanic)"

definition slice_from :: "'a slice \<Rightarrow> nat \<Rightarrow> 'a slice res" where
  "slice_from s lo =
     (if lo \<le> slice_len s then Inr \<lparr>vis = drop lo (vis s), spare = spare s\<rparr> else Inl RangePanic)"

definition slice_to :: "'a slice \<Rightarrow> nat \<Rightarrow> 'a slice res" where
  "slice_to s hi = slice_range s 0 hi"

lemma slice_cap_range: "slice_range s lo hi = Inr t \<Longrightarrow> slice_len t = hi - lo"
  by (auto simp: slice_range_def slice_len_def slice_cap_def split: if_splits)

section \<open>Big-endian bytes\<close>

definition put16 :: "u16 \<Rightarrow> bytes" where
  "put16 w = [ucast (drop_bit 8 w), ucast w]"

definition get16 :: "u8 \<Rightarrow> u8 \<Rightarrow> u16" where
  "get16 a b = ucast b OR push_bit 8 (ucast a)"

definition put32 :: "u32 \<Rightarrow> bytes" where
  "put32 w = [ucast (drop_bit 24 w), ucast (drop_bit 16 w), ucast (drop_bit 8 w), ucast w]"

definition get32 :: "u8 \<Rightarrow> u8 \<Rightarrow> u8 \<Rightarrow> u8 \<Rightarrow> u32" where
  "get32 a b c d =
     ucast d OR push_bit 8 (ucast c) OR push_bit 16 (ucast b) OR push_bit 24 (ucast a)"

text \<open>\<open>binary.BigEndian.Uint16\<close> and \<open>Uint32\<close> on a slice panic when it is too short.\<close>

fun uint16_of :: "bytes \<Rightarrow> u16 res" where
  "uint16_of (a # b # _) = Inr (get16 a b)"
| "uint16_of _ = Inl RangePanic"

fun uint32_of :: "bytes \<Rightarrow> u32 res" where
  "uint32_of (a # b # c # d # _) = Inr (get32 a b c d)"
| "uint32_of _ = Inl RangePanic"

lemma length_put [simp]: "length (put16 w) = 2" "length (put32 v) = 4"
  by (simp_all add: put16_def put32_def)

lemma get16_put16 [wire_simps]: "get16 (ucast (drop_bit 8 w)) (ucast w) = w"
  by (rule bit_word_eqI) (auto simp: get16_def bit_simps)

lemma get32_put32 [wire_simps]:
  "get32 (ucast (drop_bit 24 w)) (ucast (drop_bit 16 w)) (ucast (drop_bit 8 w)) (ucast w) = w"
proof (rule bit_word_eqI)
  fix n
  assume n: "n < LENGTH(32)"
  have "n < 8 \<or> 8 \<le> n \<and> n < 16 \<or> 16 \<le> n \<and> n < 24 \<or> 24 \<le> n \<and> n < 32"
    using n by auto
  then show "bit (get32 (ucast (drop_bit 24 w)) (ucast (drop_bit 16 w)) (ucast (drop_bit 8 w)) (ucast w)) n
      = bit w n"
    by (elim disjE conjE) (auto simp: get32_def bit_simps)
qed

lemma uint16_of_put16 [wire_simps]: "uint16_of (put16 w @ r) = Inr w"
  by (simp add: put16_def wire_simps)

lemma uint32_of_put32 [wire_simps]: "uint32_of (put32 w @ r) = Inr w"
  by (simp add: put32_def wire_simps)

end
