(* ===== verification/Netip.thy ===== *)
theory Netip
  imports Prelude
begin

text \<open>
  The parts of Go's standard library the program computes with: \<open>net/netip\<close> (addresses,
  prefixes, their parsers and printers), \<open>net.CIDRMask\<close>, and the decimal conversions
  of \<open>fmt\<close> and \<open>strconv\<close>. A parser returns \<open>None\<close> where Go returns an error.
\<close>

section \<open>Decimal numbers\<close>

definition digit_char :: "nat \<Rightarrow> char" where
  "digit_char d = char_of (48 + d)"

definition is_digit :: "char \<Rightarrow> bool" where
  "is_digit c \<longleftrightarrow> 48 \<le> (of_char c :: nat) \<and> (of_char c :: nat) \<le> 57"

definition digit_val :: "char \<Rightarrow> nat" where
  "digit_val c = of_char c - 48"

fun show_nat :: "nat \<Rightarrow> string" where
  "show_nat n = (if n < 10 then [digit_char n] else show_nat (n div 10) @ [digit_char (n mod 10)])"

declare show_nat.simps [simp del]

fun read_digits :: "nat \<Rightarrow> string \<Rightarrow> nat option" where
  "read_digits acc [] = Some acc"
| "read_digits acc (c # cs) = (if is_digit c then read_digits (10 * acc + digit_val c) cs else None)"

text \<open>\<open>strconv.ParseUint(s, 10, bits)\<close>.\<close>

definition ParseUint :: "string \<Rightarrow> nat \<Rightarrow> nat option" where
  "ParseUint s bits =
     (if s = [] then None
      else case read_digits 0 s of None \<Rightarrow> None | Some n \<Rightarrow> if n < 2 ^ bits then Some n else None)"

lemma digit_char_simps [simp]:
  "d < 10 \<Longrightarrow> is_digit (digit_char d)"
  "d < 10 \<Longrightarrow> digit_val (digit_char d) = d"
  by (simp_all add: is_digit_def digit_val_def digit_char_def of_char_of)

lemma show_nat_less10: "n < 10 \<Longrightarrow> show_nat n = [digit_char n]"
  by (simp add: show_nat.simps [of n])

lemma show_nat_less100:
  "10 \<le> n \<Longrightarrow> n < 100 \<Longrightarrow> show_nat n = [digit_char (n div 10), digit_char (n mod 10)]"
  by (simp add: show_nat.simps [of n] show_nat_less10)

lemma show_nat_less1000:
  "100 \<le> n \<Longrightarrow> n < 1000 \<Longrightarrow>
     show_nat n = [digit_char (n div 100), digit_char (n div 10 mod 10), digit_char (n mod 10)]"
  by (simp add: show_nat.simps [of n] show_nat_less100 div_mult2_eq [symmetric])

lemma read_digits_append:
  "read_digits a (xs @ ys) = Option.bind (read_digits a xs) (\<lambda>b. read_digits b ys)"
  by (induction xs arbitrary: a) auto

lemma read_digits_show_nat [wire_simps]: "read_digits 0 (show_nat n) = Some n"
proof (induction n rule: show_nat.induct)
  case (1 n)
  then show ?case
    by (cases "n < 10") (simp_all add: show_nat.simps [of n] read_digits_append)
qed

lemma show_nat_not_Nil [simp]: "show_nat n \<noteq> []"
  by (simp add: show_nat.simps [of n])

lemma show_nat_digits: "c \<in> set (show_nat n) \<Longrightarrow> is_digit c"
proof (induction n rule: show_nat.induct)
  case (1 n)
  then show ?case
    by (cases "n < 10") (auto simp: show_nat.simps [of n])
qed

lemma ParseUint_show_nat [wire_simps]: "n < 2 ^ b \<Longrightarrow> ParseUint (show_nat n) b = Some n"
  by (simp add: ParseUint_def wire_simps)

section \<open>Addresses\<close>

text \<open>\<open>netip.Addr\<close>: the zero value, an IPv4 address, an IPv6 address with its zone.\<close>

datatype Addr = AddrZero | Addr4 u32 | Addr6 "128 word" string

fun Is4 :: "Addr \<Rightarrow> bool" where
  "Is4 (Addr4 _) = True"
| "Is4 _ = False"

fun Is6 :: "Addr \<Rightarrow> bool" where
  "Is6 (Addr6 _ _) = True"
| "Is6 _ = False"

definition v6u16 :: "128 word \<Rightarrow> nat \<Rightarrow> u16" where
  "v6u16 w i = ucast (drop_bit (16 * (7 - i)) w)"

definition groups6 :: "128 word \<Rightarrow> u16 list" where
  "groups6 w = map (v6u16 w) [0..<8]"

fun AsSlice :: "Addr \<Rightarrow> bytes" where
  "AsSlice AddrZero = []"
| "AsSlice (Addr4 w) = put32 w"
| "AsSlice (Addr6 w z) = concat (map put16 (groups6 w))"

definition Is4In6 :: "128 word \<Rightarrow> bool" where
  "Is4In6 w \<longleftrightarrow> drop_bit 32 w = 0xffff"

text \<open>\<open>Addr.As4\<close> panics on the zero address and on a proper IPv6 address.\<close>

fun As4 :: "Addr \<Rightarrow> u32 res" where
  "As4 AddrZero = Inl RangePanic"
| "As4 (Addr4 w) = Inr w"
| "As4 (Addr6 w z) = (if Is4In6 w then Inr (ucast w) else Inl RangePanic)"

text \<open>\<open>netip.AddrFromSlice\<close> of a four-byte slice.\<close>

fun addr_of_slice4 :: "bytes \<Rightarrow> Addr" where
  "addr_of_slice4 [a, b, c, d] = Addr4 (get32 a b c d)"
| "addr_of_slice4 _ = AddrZero"

lemma addr_of_slice4_put32 [wire_simps]: "addr_of_slice4 (put32 w) = Addr4 w"
  by (simp add: put32_def wire_simps)

section \<open>Printing addresses\<close>

definition octet :: "u32 \<Rightarrow> nat \<Rightarrow> nat" where
  "octet w i = unat (ucast (drop_bit (8 * (3 - i)) w) :: u8)"

definition dotted :: "nat \<Rightarrow> nat \<Rightarrow> nat \<Rightarrow> nat \<Rightarrow> string" where
  "dotted a b c d = show_nat a @ ''.'' @ show_nat b @ ''.'' @ show_nat c @ ''.'' @ show_nat d"

definition string4 :: "u32 \<Rightarrow> string" where
  "string4 w = dotted (octet w 0) (octet w 1) (octet w 2) (octet w 3)"

definition hex_digit :: "nat \<Rightarrow> char" where
  "hex_digit d = (if d < 10 then char_of (48 + d) else char_of (87 + d))"

fun show_hex :: "nat \<Rightarrow> string" where
  "show_hex n = (if n < 16 then [hex_digit n] else show_hex (n div 16) @ [hex_digit (n mod 16)])"

declare show_hex.simps [simp del]

fun zero_run :: "u16 list \<Rightarrow> nat" where
  "zero_run [] = 0"
| "zero_run (g # gs) = (if g = 0 then Suc (zero_run gs) else 0)"

fun longest_run :: "nat \<Rightarrow> u16 list \<Rightarrow> nat \<times> nat \<Rightarrow> nat \<times> nat" where
  "longest_run i [] b = b"
| "longest_run i (g # gs) (s, l) =
     (let r = zero_run (g # gs)
      in longest_run (Suc i) gs (if 2 \<le> r \<and> l < r then (i, r) else (s, l)))"

function show_groups :: "u16 list \<Rightarrow> nat \<Rightarrow> nat \<Rightarrow> nat \<Rightarrow> string" where
  "show_groups gs zs zl i =
     (if 8 \<le> i then []
      else if i = zs then
        ''::'' @ (if 8 \<le> zs + zl then []
                  else show_hex (unat (gs ! (zs + zl))) @ show_groups gs zs zl (Suc (zs + zl)))
      else (if 0 < i then '':'' else []) @ show_hex (unat (gs ! i)) @ show_groups gs zs zl (Suc i))"
  by pat_completeness auto
termination
  by (relation "measure (\<lambda>(gs, zs, zl, i). 8 - i)") auto

declare show_groups.simps [simp del]

definition string6 :: "128 word \<Rightarrow> string" where
  "string6 w = (let gs = groups6 w; (zs, zl) = longest_run 0 gs (255, 0) in show_groups gs zs zl 0)"

fun addr_String :: "Addr \<Rightarrow> string" where
  "addr_String AddrZero = ''invalid IP''"
| "addr_String (Addr4 w) = string4 w"
| "addr_String (Addr6 w z) =
     (if Is4In6 w then ''::ffff:'' @ string4 (ucast w) else string6 w)
       @ (if z = [] then [] else CHR ''%'' # z)"

section \<open>Parsing addresses\<close>

text \<open>
  \<open>parseIPv4\<close>: \<open>dot\<close> holds at the start and right after a dot, \<open>val\<close> and \<open>dig\<close>
  are the value and the number of digits of the current octet.
\<close>

fun parse4_loop :: "bool \<Rightarrow> nat \<Rightarrow> nat \<Rightarrow> nat list \<Rightarrow> string \<Rightarrow> nat list option" where
  "parse4_loop dot val dig fs [] = (if length fs < 3 then None else Some (fs @ [val]))"
| "parse4_loop dot val dig fs (c # cs) =
     (if is_digit c then
        if dig = 1 \<and> val = 0 then None
        else let val' = val * 10 + digit_val c
             in if 255 < val' then None else parse4_loop False val' (Suc dig) fs cs
      else if c = CHR ''.'' then
        if dot \<or> cs = [] then None
        else if length fs = 3 then None
        else parse4_loop True 0 0 (fs @ [val]) cs
      else None)"

fun addr_of_fields :: "nat list \<Rightarrow> u32" where
  "addr_of_fields [a, b, c, d] = get32 (of_nat a) (of_nat b) (of_nat c) (of_nat d)"
| "addr_of_fields _ = 0"

definition parseIPv4 :: "string \<Rightarrow> u32 option" where
  "parseIPv4 s = map_option addr_of_fields (parse4_loop True 0 0 [] s)"

definition hex_val :: "char \<Rightarrow> nat option" where
  "hex_val c =
     (let n = of_char c :: nat
      in if 48 \<le> n \<and> n \<le> 57 then Some (n - 48)
         else if 97 \<le> n \<and> n \<le> 102 then Some (n - 87)
         else if 65 \<le> n \<and> n \<le> 70 then Some (n - 55)
         else None)"

text \<open>One group of hexadecimal digits: the digits read, the value, the rest of the string.\<close>

fun hex_group :: "nat \<Rightarrow> nat \<Rightarrow> string \<Rightarrow> (nat \<times> nat \<times> string) option" where
  "hex_group off acc [] = Some (off, acc, [])"
| "hex_group off acc (c # cs) =
     (case hex_val c of
        None \<Rightarrow> Some (off, acc, c # cs)
      | Some d \<Rightarrow> if 3 < off \<or> 65535 < acc * 16 + d then None
                  else hex_group (Suc off) (acc * 16 + d) cs)"

text \<open>
  The loop of \<open>parseIPv6\<close> over the groups: \<open>ip\<close> are the bytes written so far and
  \<open>ell\<close> the position of the ellipsis. The fuel is the number of groups that still fit.
\<close>

fun parse6_loop :: "nat \<Rightarrow> bytes \<Rightarrow> nat option \<Rightarrow> string \<Rightarrow> (bytes \<times> nat option \<times> string) option" where
  "parse6_loop 0 ip ell s = Some (ip, ell, s)"
| "parse6_loop (Suc n) ip ell s =
     (case hex_group 0 0 s of
        None \<Rightarrow> None
      | Some (off, acc, r) \<Rightarrow>
          if off = 0 then None
          else case r of
            [] \<Rightarrow> Some (ip @ put16 (of_nat acc), ell, [])
          | c # cs \<Rightarrow>
              if c = CHR ''.'' then
                if ell = None \<and> length ip \<noteq> 12 then None
                else if 16 < length ip + 4 then None
                else (case parseIPv4 s of None \<Rightarrow> None | Some w \<Rightarrow> Some (ip @ put32 w, ell, []))
              else if c \<noteq> CHR '':'' \<or> cs = [] then None
              else let ip' = ip @ put16 (of_nat acc)
                   in if hd cs = CHR '':'' then
                        if ell \<noteq> None then None
                        else if tl cs = [] then Some (ip', Some (length ip'), [])
                        else parse6_loop n ip' (Some (length ip')) (tl cs)
                      else parse6_loop n ip' ell cs)"

definition word_of_bytes :: "bytes \<Rightarrow> 128 word" where
  "word_of_bytes = foldl (\<lambda>w b. push_bit 8 w OR ucast b) 0"

definition parse6_body :: "string \<Rightarrow> (128 word) option" where
  "parse6_body s =
     (let lead = take 2 s = ''::'';
          s' = (if lead then drop 2 s else s)
      in if lead \<and> s' = [] then Some 0
         else case parse6_loop 8 [] (if lead then Some 0 else None) s' of
           None \<Rightarrow> None
         | Some (ip, ell, rest) \<Rightarrow>
             if rest \<noteq> [] then None
             else if length ip < 16 then
               (case ell of
                  None \<Rightarrow> None
                | Some e \<Rightarrow> Some (word_of_bytes (take e ip @ replicate (16 - length ip) 0 @ drop e ip)))
             else if ell \<noteq> None then None
             else Some (word_of_bytes ip))"

definition parseIPv6 :: "string \<Rightarrow> Addr option" where
  "parseIPv6 s =
     (let body = takeWhile (\<lambda>c. c \<noteq> CHR ''%'') s; tail = dropWhile (\<lambda>c. c \<noteq> CHR ''%'') s
      in if tail = [CHR ''%''] then None
         else map_option (\<lambda>w. Addr6 w (drop 1 tail)) (parse6_body body))"

definition ParseAddr :: "string \<Rightarrow> Addr option" where
  "ParseAddr s =
     (case find (\<lambda>c. c = CHR ''.'' \<or> c = CHR '':'' \<or> c = CHR ''%'') s of
        None \<Rightarrow> None
      | Some c \<Rightarrow> if c = CHR ''.'' then map_option Addr4 (parseIPv4 s)
                  else if c = CHR '':'' then parseIPv6 s
                  else None)"

definition MustParseAddr :: "string \<Rightarrow> Addr res" where
  "MustParseAddr s = (case ParseAddr s of None \<Rightarrow> Inl ParsePanic | Some a \<Rightarrow> Inr a)"

section \<open>The printed form of an IPv4 address parses back to it\<close>

lemma parse4_loop_octet:
  assumes "n < 256" and "r = [] \<or> hd r = CHR ''.''"
  shows "parse4_loop dot 0 0 fs (show_nat n @ r) = parse4_loop False n (length (show_nat n)) fs r"
proof -
  consider "n < 10" | "10 \<le> n" "n < 100" | "100 \<le> n" "n < 1000"
    using assms(1) by linarith
  then show ?thesis
  proof cases
    case 1
    then show ?thesis by (simp add: show_nat_less10)
  next
    case 2
    then have "n div 10 \<noteq> 0" "n div 10 < 10" "n div 10 * 10 + n mod 10 = n"
      "\<not> 255 < n div 10"
      using 2 by auto
    with 2 show ?thesis by (simp add: show_nat_less100 Let_def)
  next
    case 3
    have "n div 100 * 10 + n div 10 mod 10 = n div 10"
      using div_mult_mod_eq [of "n div 10" 10] by (simp add: div_mult2_eq [symmetric])
    moreover have "n div 100 \<noteq> 0" "n div 100 < 10" "n div 10 * 10 + n mod 10 = n" "n div 10 \<le> 255"
      "\<not> 255 < n div 100"
      using 3 assms(1) by auto
    ultimately show ?thesis
      using 3 assms(1) by (simp add: show_nat_less1000 Let_def)
  qed
qed

lemma not_digit_dot [simp]: "\<not> is_digit (CHR ''.'')" "\<not> is_digit (CHR ''/'')" "\<not> is_digit (CHR '':'')"
  "\<not> is_digit (CHR ''%'')"
  by (simp_all add: is_digit_def)

lemma parse4_loop_dotted:
  assumes "a < 256" "b < 256" "c < 256" "d < 256"
  shows "parse4_loop True 0 0 [] (dotted a b c d) = Some [a, b, c, d]"
  using assms parse4_loop_octet [of d "[]"] by (simp add: dotted_def parse4_loop_octet)

lemma find_append_none: "(\<And>x. x \<in> set xs \<Longrightarrow> \<not> P x) \<Longrightarrow> find P (xs @ ys) = find P ys"
  by (induction xs) auto

lemma find_dotted:
  "find (\<lambda>x. x = CHR ''.'' \<or> x = CHR '':'' \<or> x = CHR ''%'') (dotted a b c d @ r) = Some (CHR ''.'')"
  unfolding dotted_def append_assoc
  by (subst find_append_none) (auto dest: show_nat_digits)

lemma octet_less [simp]: "octet w i < 256"
  by (simp add: octet_def unat_u8_less)

lemma addr_of_fields_octets [wire_simps]:
  "addr_of_fields [octet w 0, octet w 1, octet w 2, octet w 3] = w"
  by (simp add: octet_def wire_simps)

lemma parseIPv4_dotted:
  assumes "a < 256" "b < 256" "c < 256" "d < 256"
  shows "parseIPv4 (dotted a b c d) = Some (addr_of_fields [a, b, c, d])"
  using assms by (simp add: parseIPv4_def parse4_loop_dotted)

lemma ParseAddr_dotted:
  assumes "a < 256" "b < 256" "c < 256" "d < 256"
  shows "ParseAddr (dotted a b c d) = Some (Addr4 (addr_of_fields [a, b, c, d]))"
  using assms find_dotted [of a b c d "[]"] by (simp add: ParseAddr_def parseIPv4_dotted)

lemma ParseAddr_string4 [wire_simps]: "ParseAddr (string4 w) = Some (Addr4 w)"
  unfolding string4_def by (subst ParseAddr_dotted) (simp_all only: octet_less wire_simps)

lemma MustParseAddr_String:
  "MustParseAddr (addr_String AddrZero) = Inl ParsePanic"
  "MustParseAddr (addr_String (Addr4 w)) = Inr (Addr4 w)"
  by (simp_all add: MustParseAddr_def wire_simps) (simp add: ParseAddr_def)

section \<open>Prefixes\<close>

text \<open>\<open>netip.Prefix\<close>; the zero value has an invalid address and \<open>Bits() = -1\<close>.\<close>

datatype Prefix = Prefix (pfx_Addr: Addr) (pfx_Bits: int)

definition PrefixZero :: Prefix where
  "PrefixZero = Prefix AddrZero (-1)"

fun BitLen :: "Addr \<Rightarrow> nat" where
  "BitLen AddrZero = 0"
| "BitLen (Addr4 _) = 32"
| "BitLen (Addr6 _ _) = 128"

fun Contains :: "Prefix \<Rightarrow> Addr \<Rightarrow> bool" where
  "Contains (Prefix (Addr4 p) n) (Addr4 a) \<longleftrightarrow> 0 \<le> n \<and> drop_bit (32 - nat n) (a XOR p) = 0"
| "Contains (Prefix (Addr6 p z) n) (Addr6 a z') \<longleftrightarrow>
     0 \<le> n \<and> z' = [] \<and> drop_bit (128 - nat n) (a XOR p) = 0"
| "Contains _ _ = False"

fun Masked :: "Prefix \<Rightarrow> Prefix" where
  "Masked (Prefix (Addr4 p) n) =
     (if n < 0 then PrefixZero else Prefix (Addr4 (push_bit (32 - nat n) (drop_bit (32 - nat n) p))) n)"
| "Masked (Prefix (Addr6 p z) n) =
     (if n < 0 then PrefixZero else Prefix (Addr6 (push_bit (128 - nat n) (drop_bit (128 - nat n) p)) []) n)"
| "Masked (Prefix AddrZero n) = PrefixZero"

text \<open>A prefix that a parser can have produced.\<close>

definition valid_prefix :: "Prefix \<Rightarrow> bool" where
  "valid_prefix p \<longleftrightarrow> pfx_Addr p \<noteq> AddrZero \<and> 0 \<le> pfx_Bits p \<and> pfx_Bits p \<le> int (BitLen (pfx_Addr p))"

definition split_last :: "char \<Rightarrow> string \<Rightarrow> (string \<times> string) option" where
  "split_last c s =
     (if c \<in> set s then
        Some (rev (tl (dropWhile (\<lambda>x. x \<noteq> c) (rev s))), rev (takeWhile (\<lambda>x. x \<noteq> c) (rev s)))
      else None)"

definition ParsePrefix :: "string \<Rightarrow> Prefix option" where
  "ParsePrefix s =
     (case split_last (CHR ''/'') s of
        None \<Rightarrow> None
      | Some (a, bs) \<Rightarrow>
          (case ParseAddr a of
             None \<Rightarrow> None
           | Some ip \<Rightarrow>
               if (case ip of Addr6 w z \<Rightarrow> z \<noteq> [] | _ \<Rightarrow> False) then None
               else if 1 < length bs \<and> (\<not> is_digit (hd bs) \<or> hd bs = CHR ''0'') then None
               else if bs = [] then None
               else (case read_digits 0 bs of
                       None \<Rightarrow> None
                     | Some n \<Rightarrow> if BitLen ip < n then None else Some (Prefix ip (int n)))))"

definition prefix_String :: "Prefix \<Rightarrow> string" where
  "prefix_String p =
     (if valid_prefix p then addr_String (pfx_Addr p) @ ''/'' @ show_nat (nat (pfx_Bits p))
      else ''invalid Prefix'')"

text \<open>\<open>net.CIDRMask(ones, 32)\<close>, read as a big-endian word: nil, hence a panic, out of range.\<close>

definition CIDRMask32 :: "int \<Rightarrow> u32 res" where
  "CIDRMask32 n =
     (if 0 \<le> n \<and> n \<le> 32 then Inr (push_bit (32 - nat n) (mask (nat n))) else Inl RangePanic)"

section \<open>Sockets addresses\<close>

record AddrPort =
  ap_Addr :: Addr
  ap_Port :: u16

definition AddrPortZero :: AddrPort where
  "AddrPortZero = \<lparr>ap_Addr = AddrZero, ap_Port = 0\<rparr>"

definition ParseAddrPort :: "string \<Rightarrow> AddrPort option" where
  "ParseAddrPort s =
     (case split_last (CHR '':'') s of
        None \<Rightarrow> None
      | Some (ip, port) \<Rightarrow>
          if ip = [] \<or> port = [] then None
          else let v6 = hd ip = CHR ''['' in
            if v6 \<and> (length ip < 2 \<or> last ip \<noteq> CHR '']'') then None
            else (case (ParseUint port 16, ParseAddr (if v6 then butlast (tl ip) else ip)) of
                    (Some n, Some a) \<Rightarrow>
                      if v6 \<and> Is4 a \<or> \<not> v6 \<and> Is6 a then None
                      else Some \<lparr>ap_Addr = a, ap_Port = of_nat n\<rparr>
                  | _ \<Rightarrow> None))"

lemma split_last_append: "c \<notin> set r \<Longrightarrow> split_last c (a @ c # r) = Some (a, r)"
proof -
  assume "c \<notin> set r"
  then have "takeWhile (\<lambda>x. x \<noteq> c) (rev r @ c # rev a) = rev r"
    and "dropWhile (\<lambda>x. x \<noteq> c) (rev r @ c # rev a) = c # rev a"
    by (auto simp: takeWhile_append dropWhile_append)
  then show ?thesis by (simp add: split_last_def)
qed

lemma hd_show_nat: "1 < length (show_nat n) \<Longrightarrow> hd (show_nat n) \<noteq> CHR ''0''"
proof (induction n rule: show_nat.induct)
  case (1 n)
  show ?case
  proof (cases "n < 10")
    case True
    with 1 show ?thesis by (simp add: show_nat_less10)
  next
    case False
    then have u: "show_nat n = show_nat (n div 10) @ [digit_char (n mod 10)]"
      by (simp add: show_nat.simps [of n])
    show ?thesis
    proof (cases "n div 10 < 10")
      case True
      with False have "digit_val (hd (show_nat n)) = n div 10" "n div 10 \<noteq> 0"
        by (simp_all add: u show_nat_less10)
      then show ?thesis by (auto simp: digit_val_def)
    next
      case big: False
      then have "1 < length (show_nat (n div 10))"
        by (simp add: show_nat.simps [of "n div 10"])
      with 1 False show ?thesis by (simp add: u)
    qed
  qed
qed

lemma ParsePrefix_dotted:
  assumes "a < 256" "b < 256" "c < 256" "d < 256" "n \<le> 32"
  shows "ParsePrefix (dotted a b c d @ ''/'' @ show_nat n)
    = Some (Prefix (Addr4 (addr_of_fields [a, b, c, d])) (int n))"
proof -
  have "CHR ''/'' \<notin> set (show_nat n)"
    using show_nat_digits not_digit_dot(2) by blast
  then have "split_last (CHR ''/'') (dotted a b c d @ ''/'' @ show_nat n) = Some (dotted a b c d, show_nat n)"
    by (simp add: split_last_append)
  moreover have "is_digit (hd (show_nat n))"
    by (simp add: show_nat_digits [of _ n])
  ultimately show ?thesis
    using assms hd_show_nat [of n] by (simp add: ParsePrefix_def ParseAddr_dotted wire_simps del: addr_of_fields.simps)
qed

end
