(* ===== verification/Ipv4_Header.thy ===== *)
theory Ipv4_Header
  imports Netip
begin

text \<open>
  \<open>pkg/iptcp-headers/ipv4header.go\<close>: the IPv4 header and its wire format. \<open>Marshal\<close>
  and \<open>Parse\<close> are methods on a pointer; a nil pointer, and a nil slice, are \<open>None\<close>.
  The lemmas show the two directions of the round trip and when each error is returned.
\<close>

datatype hdr_error = errNilHeader | errHeaderTooShort | errExtHeaderTooShort | errMissingAddress

record IPv4Header =
  h_Version :: int
  h_Len :: int
  h_TOS :: int
  h_TotalLen :: int
  h_ID :: int
  h_Flags :: int
  h_FragOff :: int
  h_TTL :: int
  h_Protocol :: int
  h_Checksum :: int
  h_Src :: Addr
  h_Dst :: Addr
  h_Options :: bytes

definition HeaderLen :: int where
  "HeaderLen = 20"

definition Version :: int where
  "Version = 4"

definition newHeader :: IPv4Header where
  "newHeader = \<lparr>h_Version = 0, h_Len = 0, h_TOS = 0, h_TotalLen = 0, h_ID = 0, h_Flags = 0,
     h_FragOff = 0, h_TTL = 0, h_Protocol = 0, h_Checksum = 0, h_Src = AddrZero, h_Dst = AddrZero,
     h_Options = []\<rparr>"

definition Marshal :: "IPv4Header option \<Rightarrow> hdr_error + bytes" where
  "Marshal hp =
     (case hp of
        None \<Rightarrow> Inl errNilHeader
      | Some h \<Rightarrow>
          if h_Len h < HeaderLen then Inl errHeaderTooShort
          else
            let hdrlen = HeaderLen + int (length (h_Options h));
                flagsAndFragOff = (h_FragOff h AND 0x1fff) OR push_bit 13 (h_Flags h);
                src = (if Is4 (h_Src h) then AsSlice (h_Src h) else [0, 0, 0, 0])
            in if Is4 (h_Dst h) then
                 Inr ([word_of_int (push_bit 4 Version OR (drop_bit 2 hdrlen AND 0x0f)),
                       word_of_int (h_TOS h)]
                      @ put16 (word_of_int (h_TotalLen h))
                      @ put16 (word_of_int (h_ID h))
                      @ put16 (word_of_int flagsAndFragOff)
                      @ [word_of_int (h_TTL h), word_of_int (h_Protocol h)]
                      @ put16 (word_of_int (h_Checksum h))
                      @ src @ AsSlice (h_Dst h) @ h_Options h)
               else Inl errMissingAddress)"

definition rd16 :: "bytes \<Rightarrow> nat \<Rightarrow> int" where
  "rd16 b i = uint (get16 (b ! i) (b ! Suc i))"

definition Parse :: "IPv4Header option \<Rightarrow> bytes option \<Rightarrow> hdr_error + IPv4Header" where
  "Parse hp bp =
     (case (hp, bp) of
        (Some h, Some b) \<Rightarrow>
          if int (length b) < HeaderLen then Inl errHeaderTooShort
          else
            let hdrlen = push_bit 2 (uint (b ! 0 AND 0x0f))
            in if int (length b) < hdrlen then Inl errExtHeaderTooShort
               else
                 let fragOff = rd16 b 6; optlen = hdrlen - HeaderLen
                 in Inr \<lparr>h_Version = uint (drop_bit 4 (b ! 0)), h_Len = hdrlen, h_TOS = uint (b ! 1),
                         h_TotalLen = rd16 b 2, h_ID = rd16 b 4,
                         h_Flags = drop_bit 13 (fragOff AND 0xe000), h_FragOff = fragOff AND 0x1fff,
                         h_TTL = uint (b ! 8), h_Protocol = uint (b ! 9), h_Checksum = rd16 b 10,
                         h_Src = addr_of_slice4 (take 4 (drop 12 b)),
                         h_Dst = addr_of_slice4 (take 4 (drop 16 b)),
                         h_Options = (if 0 < optlen \<and> hdrlen \<le> int (length b)
                                      then take (nat optlen) (drop 20 b) else h_Options h)\<rparr>
      | _ \<Rightarrow> Inl errNilHeader)"

definition ParseHeader :: "bytes option \<Rightarrow> hdr_error + IPv4Header" where
  "ParseHeader b = Parse (Some newHeader) b"

section \<open>Well-formed headers\<close>

definition wf_header :: "IPv4Header \<Rightarrow> bool" where
  "wf_header h \<longleftrightarrow>
     h_Version h = 4 \<and> h_Len h = 20 + int (length (h_Options h)) \<and>
     length (h_Options h) \<le> 40 \<and> length (h_Options h) mod 4 = 0 \<and>
     h_TOS h \<in> {0..<256} \<and> h_TotalLen h \<in> {0..<65536} \<and> h_ID h \<in> {0..<65536} \<and>
     h_Flags h \<in> {0..<8} \<and> h_FragOff h \<in> {0..<8192} \<and> h_TTL h \<in> {0..<256} \<and>
     h_Protocol h \<in> {0..<256} \<and> h_Checksum h \<in> {0..<65536} \<and> Is4 (h_Src h) \<and> Is4 (h_Dst h)"

lemmas header_unfold = Marshal_def ParseHeader_def Parse_def newHeader_def HeaderLen_def Version_def
  rd16_def Let_def

section \<open>Bit fields\<close>

lemma ihl_byte:
  assumes "n \<le> 10"
  shows "uint ((word_of_int (push_bit 4 4 OR (drop_bit 2 (20 + 4 * int n) AND 15)) :: u8) AND 15) = 5 + int n"
    and "drop_bit 4 (word_of_int (push_bit 4 4 OR (drop_bit 2 (20 + 4 * int n) AND 15)) :: u8) = 4"
proof -
  have "n \<in> {0, 1, 2, 3, 4, 5, 6, 7, 8, 9, 10}"
    using assms by (simp, presburger)
  then show "uint ((word_of_int (push_bit 4 4 OR (drop_bit 2 (20 + 4 * int n) AND 15)) :: u8) AND 15) = 5 + int n"
    and "drop_bit 4 (word_of_int (push_bit 4 4 OR (drop_bit 2 (20 + 4 * int n) AND 15)) :: u8) = 4"
    by (elim insertE emptyE; simp add: drop_bit_eq_div)+
qed

lemma and_8191: "x AND 8191 = x mod 8192" for x :: int
  using take_bit_eq_mask [of 13 x] by (simp add: take_bit_eq_mod mask_eq_exp_minus_1)

lemma or_push_bit13:
  assumes "0 \<le> (r :: int)" "r < 8192"
  shows "r OR push_bit 13 f = f * 8192 + r"
proof -
  have "\<not> bit r i" if "13 \<le> i" for i
  proof -
    have "r = take_bit 13 r" using assms by (simp add: take_bit_int_eq_self)
    then show ?thesis using that by (metis bit_take_bit_iff not_le)
  qed
  then have "r OR push_bit 13 f = r + push_bit 13 f"
    by (intro disjunctive_add [symmetric]) (auto simp: bit_simps)
  then show ?thesis by (simp add: push_bit_eq_mult)
qed

lemma flags_fragoff:
  assumes "0 \<le> f" "f < 8" "0 \<le> (r :: int)" "r < 8192"
  shows "uint (word_of_int ((r AND 8191) OR push_bit 13 f) :: u16) = f * 8192 + r"
proof -
  have "(r AND 8191) OR push_bit 13 f = f * 8192 + r"
    using assms by (simp add: and_8191 or_push_bit13)
  then show ?thesis
    using assms by (simp only: unsigned_of_int) (simp add: take_bit_int_eq_self)
qed

lemma split_flags_fragoff:
  assumes "0 \<le> f" "f < 8" "0 \<le> (r :: int)" "r < 8192"
  shows "drop_bit 13 ((f * 8192 + r) AND 57344) = f" and "(f * 8192 + r) AND 8191 = r"
proof -
  have f: "(f * 8192 + r) div 8192 = f"
    using assms by auto
  show "(f * 8192 + r) AND 8191 = r"
    using assms by (simp add: and_8191)
  have "drop_bit 13 ((f * 8192 + r) AND 57344) = drop_bit 13 (f * 8192 + r) AND drop_bit 13 57344"
    by (simp only: drop_bit_and)
  also have "\<dots> = f AND 7"
    using f by (simp add: drop_bit_eq_div)
  also have "\<dots> = f"
    using take_bit_eq_mask [of 3 f] assms by (simp add: take_bit_int_eq_self mask_eq_exp_minus_1)
  finally show "drop_bit 13 ((f * 8192 + r) AND 57344) = f" .
qed

lemma join_flags_fragoff:
  assumes "0 \<le> (v :: int)" "v < 65536"
  shows "((v AND 8191) AND 8191) OR push_bit 13 (drop_bit 13 (v AND 57344)) = v"
proof -
  define f r where "f = v div 8192" and "r = v mod 8192"
  have b: "0 \<le> f" "f < 8" "0 \<le> r" "r < 8192" and v: "v = f * 8192 + r"
    using assms by (auto simp: f_def r_def)
  show ?thesis
    unfolding v split_flags_fragoff [OF b] using b by (simp add: and_8191 or_push_bit13)
qed

section \<open>Round trips\<close>

lemma uint_word_of_int_u8: "0 \<le> x \<Longrightarrow> x < 256 \<Longrightarrow> uint (word_of_int x :: u8) = x"
  by (simp add: unsigned_of_int take_bit_int_eq_self)

lemma uint_word_of_int_u16: "0 \<le> x \<Longrightarrow> x < 65536 \<Longrightarrow> uint (word_of_int x :: u16) = x"
  by (simp add: unsigned_of_int take_bit_int_eq_self)

lemma put16_get16 [wire_simps]: "put16 (get16 a b) = [a, b]"
  by (auto simp: put16_def get16_def intro!: bit_word_eqI) (auto simp: bit_simps dest: bit_imp_le_length)

lemma put32_get32 [wire_simps]: "put32 (get32 a b c d) = [a, b, c, d]"
  by (auto simp: put32_def get32_def intro!: bit_word_eqI) (auto simp: bit_simps dest: bit_imp_le_length)

text \<open>\<open>Parse\<close> on the twenty fixed bytes, written out.\<close>

lemma ParseHeader_bytes:
  "ParseHeader (Some ([b0, b1, b2, b3, b4, b5, b6, b7, b8, b9, b10, b11, b12, b13, b14, b15, b16,
       b17, b18, b19] @ r)) =
   (let hdrlen = push_bit 2 (uint (b0 AND 15)); ff = uint (get16 b6 b7)
    in if 20 + int (length r) < hdrlen then Inl errExtHeaderTooShort
       else Inr \<lparr>h_Version = uint (drop_bit 4 b0), h_Len = hdrlen, h_TOS = uint b1,
         h_TotalLen = uint (get16 b2 b3), h_ID = uint (get16 b4 b5), h_Flags = drop_bit 13 (ff AND 57344),
         h_FragOff = ff AND 8191, h_TTL = uint b8, h_Protocol = uint b9, h_Checksum = uint (get16 b10 b11),
         h_Src = Addr4 (get32 b12 b13 b14 b15), h_Dst = Addr4 (get32 b16 b17 b18 b19),
         h_Options = take (nat (hdrlen - 20)) r\<rparr>)"
  by (simp add: header_unfold)

lemma Marshal_bytes:
  assumes "20 \<le> h_Len h" "h_Src h = Addr4 s" "h_Dst h = Addr4 d"
  shows "Marshal (Some h) = Inr
    ([word_of_int (64 OR (drop_bit 2 (20 + int (length (h_Options h))) AND 15)), word_of_int (h_TOS h)]
      @ put16 (word_of_int (h_TotalLen h)) @ put16 (word_of_int (h_ID h))
      @ put16 (word_of_int ((h_FragOff h AND 8191) OR push_bit 13 (h_Flags h)))
      @ [word_of_int (h_TTL h), word_of_int (h_Protocol h)] @ put16 (word_of_int (h_Checksum h))
      @ put32 s @ put32 d @ h_Options h)"
  using assms by (simp add: header_unfold)

lemma Marshal_wf_header:
  assumes "wf_header h"
  shows "\<exists>b. Marshal (Some h) = Inr b \<and> length b = nat (h_Len h)"
proof -
  obtain s d where "h_Src h = Addr4 s" "h_Dst h = Addr4 d"
    using assms by (cases "h_Src h"; cases "h_Dst h") (auto simp: wf_header_def)
  then show ?thesis
    using assms by (auto simp: Marshal_bytes wf_header_def)
qed

lemma ParseHeader_Marshal:
  assumes wf: "wf_header h" and b: "Marshal (Some h) = Inr b"
  shows "ParseHeader (Some (b @ payload)) = Inr h"
proof -
  obtain s d where sd: "h_Src h = Addr4 s" "h_Dst h = Addr4 d"
    using wf by (cases "h_Src h"; cases "h_Dst h") (auto simp: wf_header_def)
  define n where "n = length (h_Options h) div 4"
  define b0 :: u8 where "b0 = word_of_int (64 OR (drop_bit 2 (20 + 4 * int n) AND 15))"
  have n: "n \<le> 10" and o4: "length (h_Options h) = 4 * n" and len: "h_Len h = 20 + 4 * int n"
    using wf by (auto simp: wf_header_def n_def)
  have ihl: "push_bit 2 (uint (b0 AND 15)) = 20 + 4 * int n" and ver: "uint (drop_bit 4 b0) = 4"
    using ihl_byte [OF n] by (simp_all add: b0_def push_bit_eq_mult)
  have fr: "0 \<le> h_Flags h" "h_Flags h < 8" "0 \<le> h_FragOff h" "h_FragOff h < 8192"
    using wf by (auto simp: wf_header_def)
  note ff = flags_fragoff [OF fr] and sp = split_flags_fragoff [OF fr]
  have sp7: "drop_bit 13 (h_Flags h * 8192 + h_FragOff h) AND 7 = h_Flags h"
    using sp(1) by simp
  have "b = [b0, word_of_int (h_TOS h)]
      @ put16 (word_of_int (h_TotalLen h)) @ put16 (word_of_int (h_ID h))
      @ put16 (word_of_int ((h_FragOff h AND 8191) OR push_bit 13 (h_Flags h)))
      @ [word_of_int (h_TTL h), word_of_int (h_Protocol h)] @ put16 (word_of_int (h_Checksum h))
      @ put32 s @ put32 d @ h_Options h"
    using b Marshal_bytes [OF _ sd] len o4 by (simp add: b0_def)
  then have "ParseHeader (Some (b @ payload)) = Inr \<lparr>h_Version = uint (drop_bit 4 b0),
      h_Len = 20 + 4 * int n, h_TOS = h_TOS h, h_TotalLen = h_TotalLen h, h_ID = h_ID h,
      h_Flags = h_Flags h, h_FragOff = h_FragOff h, h_TTL = h_TTL h, h_Protocol = h_Protocol h,
      h_Checksum = h_Checksum h, h_Src = Addr4 s, h_Dst = Addr4 d, h_Options = h_Options h\<rparr>"
    using wf ParseHeader_bytes [of b0] o4
    by (simp add: put16_def put32_def ihl Let_def wire_simps ff sp sp7 uint_word_of_int_u8
        uint_word_of_int_u16 wf_header_def)
  then show ?thesis
    using len sd wf by (simp add: ver wf_header_def)
qed

lemma list20:
  "20 \<le> length b \<Longrightarrow> \<exists>b0 b1 b2 b3 b4 b5 b6 b7 b8 b9 b10 b11 b12 b13 b14 b15 b16 b17 b18 b19 r.
     b = [b0, b1, b2, b3, b4, b5, b6, b7, b8, b9, b10, b11, b12, b13, b14, b15, b16, b17, b18, b19] @ r"
  by (auto simp: numeral_eq_Suc Suc_le_length_iff)

lemma first_byte:
  assumes "uint (drop_bit 4 (b0 :: u8)) = 4" and "k = uint (b0 AND 15)"
  shows "word_of_int (64 OR (drop_bit 2 (4 * k) AND 15)) = b0"
proof -
  have k: "drop_bit 2 (4 * k) AND 15 = k"
  proof -
    have "drop_bit 2 (4 * k) = k" by (simp add: drop_bit_eq_div)
    moreover have "k AND 15 = k"
    proof -
      have "b0 AND 15 = take_bit 4 b0" and "k AND 15 = take_bit 4 k"
        by (simp_all add: take_bit_eq_mask mask_eq_exp_minus_1)
      then show ?thesis by (simp add: assms(2) unsigned_take_bit_eq)
    qed
    ultimately show ?thesis by simp
  qed
  have "drop_bit 4 b0 = 4"
    using assms(1) by (metis uint_word_of_int_eq word_of_int_uint of_int_numeral)
  moreover have "b0 = push_bit 4 (drop_bit 4 b0) OR (b0 AND 15)"
  proof -
    have "b0 AND 15 = take_bit 4 b0" by (simp add: take_bit_eq_mask mask_eq_exp_minus_1)
    then show ?thesis by (auto intro!: bit_word_eqI simp: bit_simps)
  qed
  ultimately have "b0 = 64 OR (b0 AND 15)" by simp
  then have "word_of_int (64 OR k) = b0"
    by (simp add: assms(2) of_int_or_eq)
  then show ?thesis by (simp only: k)
qed

lemma Marshal_ParseHeader:
  assumes p: "ParseHeader (Some b) = Inr h" and v: "h_Version h = 4" and l: "20 \<le> h_Len h"
  shows "Marshal (Some h) = Inr (take (nat (h_Len h)) b)"
proof -
  have "20 \<le> length b"
    using p by (auto simp: header_unfold split: if_splits)
  from list20 [OF this] obtain b0 b1 b2 b3 b4 b5 b6 b7 b8 b9 b10 b11 b12 b13 b14 b15 b16 b17 b18 b19 r
    where b: "b = [b0, b1, b2, b3, b4, b5, b6, b7, b8, b9, b10, b11, b12, b13, b14, b15, b16, b17, b18, b19] @ r"
    by (elim exE)
  define k where "k = uint (b0 AND 15)"
  have hk: "h_Len h = 4 * k" and k: "0 \<le> k" and opt: "h_Options h = take (nat (4 * k - 20)) r"
    and rl: "4 * k - 20 \<le> int (length r)"
    using p unfolding b ParseHeader_bytes
    by (auto simp: Let_def k_def push_bit_eq_mult mult.commute [of 4] split: if_splits)
  have ol: "20 + int (length (h_Options h)) = 4 * k"
    using l hk rl by (simp add: opt)
  have b0: "word_of_int (64 OR (drop_bit 2 (4 * k) AND 15)) = b0"
    using p v unfolding b ParseHeader_bytes
    by (intro first_byte) (auto simp: Let_def k_def split: if_splits)
  have ff: "((uint (get16 b6 b7) AND 8191) AND 8191) OR push_bit 13 (drop_bit 13 (uint (get16 b6 b7) AND 57344))
      = uint (get16 b6 b7)"
    by (intro join_flags_fragoff) (simp_all add: uint_u16_less)
  have take: "take (nat (4 * k)) b = [b0, b1, b2, b3, b4, b5, b6, b7, b8, b9, b10, b11, b12, b13, b14, b15,
      b16, b17, b18, b19] @ take (nat (4 * k - 20)) r" (is "_ = ?xs @ _")
  proof -
    have "length ?xs = 20" and "20 \<le> nat (4 * k)" using l hk by simp_all
    then show ?thesis unfolding b take_append by (simp only: take_all nat_diff_distrib' k) simp
  qed
  have fields: "h_TOS h = uint b1" "h_TotalLen h = uint (get16 b2 b3)" "h_ID h = uint (get16 b4 b5)"
      "(h_FragOff h AND 8191) OR push_bit 13 (h_Flags h) = uint (get16 b6 b7)" "h_TTL h = uint b8"
      "h_Protocol h = uint b9" "h_Checksum h = uint (get16 b10 b11)"
    and src: "h_Src h = Addr4 (get32 b12 b13 b14 b15)" and dst: "h_Dst h = Addr4 (get32 b16 b17 b18 b19)"
    using p ff unfolding b ParseHeader_bytes by (auto simp: Let_def split: if_splits)
  show ?thesis
    unfolding Marshal_bytes [OF l src dst] ol hk take b0 fields by (simp add: wire_simps opt)
qed

section \<open>Properties\<close>

definition example_header :: IPv4Header where
  "example_header = \<lparr>h_Version = 4, h_Len = 24, h_TOS = 0, h_TotalLen = 30, h_ID = 7, h_Flags = 2,
     h_FragOff = 100, h_TTL = 16, h_Protocol = 200, h_Checksum = 0x1234, h_Src = Addr4 0x0a000001,
     h_Dst = Addr4 0x0a000002, h_Options = [1, 2, 3, 4]\<rparr>"

definition example_bytes :: bytes where
  "example_bytes = [0x45, 0, 0, 21, 0, 7, 0x40, 100, 16, 200, 0x12, 0x34, 10, 0, 0, 1, 10, 0, 0, 2, 99]"

text \<open>
  C11: every well-formed IPv4 header (its fields in range, options of whole words) can be
  marshalled, into \<open>Len\<close> bytes, and parsing them with any payload behind gives back
  exactly that header.
\<close>
theorem ipv4_marshal_parse:
  assumes "wf_header h"
  shows "\<exists>b. Marshal (Some h) = Inr b \<and> length b = nat (h_Len h) \<and> ParseHeader (Some (b @ payload)) = Inr h"
  using Marshal_wf_header [OF assms] ParseHeader_Marshal [OF assms] by blast

theorem ipv4_marshal_parse_witness:
  "wf_header example_header \<and>
   (\<exists>b. Marshal (Some example_header) = Inr b \<and> ParseHeader (Some (b @ [9, 9])) = Inr example_header)"
proof -
  have wf: "wf_header example_header" by (simp add: wf_header_def example_header_def)
  from ipv4_marshal_parse [OF wf, of "[9, 9]"] wf show ?thesis by blast
qed

text \<open>
  C17: marshalling a parsed header that announces version 4 and at least the fixed twenty
  bytes reproduces the bytes it was parsed from.
\<close>
theorem ipv4_parse_marshal:
  assumes "ParseHeader (Some b) = Inr h" "h_Version h = 4" "20 \<le> h_Len h"
  shows "Marshal (Some h) = Inr (take (nat (h_Len h)) b)"
  using assms by (rule Marshal_ParseHeader)

theorem ipv4_parse_marshal_witness:
  "\<exists>h. ParseHeader (Some example_bytes) = Inr h \<and> Marshal (Some h) = Inr (take 20 example_bytes)"
proof -
  obtain h where h: "ParseHeader (Some example_bytes) = Inr h" "h_Version h = 4" "h_Len h = 20"
    by (simp add: header_unfold example_bytes_def push_bit_eq_mult)
  from ipv4_parse_marshal [OF h(1,2)] h show ?thesis by simp
qed

end
