(* ===== verification/Iptcp_Utils.thy ===== *)
theory Iptcp_Utils
  imports Netip
begin

text \<open>
  \<open>pkg/iptcp_utils/iptcp_utils.go\<close>: TCP header parsing and checksums on top of the
  third-party package \<open>netstack/tcpip/header\<close>. That package is the record \<open>netstack\<close>,
  a parameter of every definition that calls it; \<open>netstack_flags\<close>, \<open>netstack_codec\<close> and
  \<open>netstack_checksum\<close> name the documented behaviour the properties rely on. The lemmas
  characterise exactly which headers pass checksum validation.
\<close>

section \<open>The netstack package\<close>

record TCPFields =
  tf_SrcPort :: u16
  tf_DstPort :: u16
  tf_SeqNum :: u32
  tf_AckNum :: u32
  tf_DataOffset :: u8
  tf_Flags :: u8
  tf_WindowSize :: u16
  tf_Checksum :: u16
  tf_UrgentPointer :: u16

text \<open>
  \<open>ns_Encode f\<close> is the content of a fresh \<open>TCPMinimumSize\<close>-byte buffer after
  \<open>Encode(f)\<close>; the accessors of \<open>header.TCP\<close> panic on a buffer that is too short.
\<close>

record netstack =
  ns_Checksum :: "bytes \<Rightarrow> u16 \<Rightarrow> u16"
  ns_Encode :: "TCPFields \<Rightarrow> bytes"
  ns_SourcePort :: "bytes \<Rightarrow> u16 res"
  ns_DestinationPort :: "bytes \<Rightarrow> u16 res"
  ns_SequenceNumber :: "bytes \<Rightarrow> u32 res"
  ns_AckNumber :: "bytes \<Rightarrow> u32 res"
  ns_DataOffset :: "bytes \<Rightarrow> u8 res"
  ns_Flags :: "bytes \<Rightarrow> u8 res"
  ns_WindowSize :: "bytes \<Rightarrow> u16 res"
  ns_TCPChecksum :: "bytes \<Rightarrow> u16 res"
  ns_TCPMinimumSize :: nat
  ns_TCPProtocolNumber :: u8
  ns_FlagFin :: u8
  ns_FlagSyn :: u8
  ns_FlagRst :: u8
  ns_FlagPsh :: u8
  ns_FlagAck :: u8
  ns_FlagUrg :: u8

section \<open>The package's own functions\<close>

definition TcpHeaderLen :: "netstack \<Rightarrow> nat" where
  "TcpHeaderLen ns = ns_TCPMinimumSize ns"

definition ParseTCPHeader :: "netstack \<Rightarrow> bytes \<Rightarrow> TCPFields res" where
  "ParseTCPHeader ns b =
     bindr (ns_SourcePort ns b) (\<lambda>sp.
     bindr (ns_DestinationPort ns b) (\<lambda>dp.
     bindr (ns_SequenceNumber ns b) (\<lambda>sn.
     bindr (ns_AckNumber ns b) (\<lambda>an.
     bindr (ns_DataOffset ns b) (\<lambda>off.
     bindr (ns_Flags ns b) (\<lambda>fl.
     bindr (ns_WindowSize ns b) (\<lambda>w.
     bindr (ns_TCPChecksum ns b) (\<lambda>ck.
       Inr \<lparr>tf_SrcPort = sp, tf_DstPort = dp, tf_SeqNum = sn, tf_AckNum = an, tf_DataOffset = off,
            tf_Flags = fl, tf_WindowSize = w, tf_Checksum = ck, tf_UrgentPointer = 0\<rparr>))))))))"

text \<open>\<open>copy\<close> into four zero bytes.\<close>

definition copy4 :: "bytes \<Rightarrow> bytes" where
  "copy4 xs = take 4 (xs @ [0, 0, 0, 0])"

definition ComputeTCPChecksum :: "netstack \<Rightarrow> TCPFields \<Rightarrow> Addr \<Rightarrow> Addr \<Rightarrow> bytes \<Rightarrow> u16" where
  "ComputeTCPChecksum ns tcpHdr sourceIP destIP payload =
     (let totalLength = TcpHeaderLen ns + length payload;
          pseudoHeaderBytes = copy4 (AsSlice sourceIP) @ copy4 (AsSlice destIP)
            @ [0, ns_TCPProtocolNumber ns] @ put16 (of_nat totalLength);
          headerBytes = ns_Encode ns tcpHdr;
          pseudoHeaderChecksum = ns_Checksum ns pseudoHeaderBytes 0;
          headerChecksum = ns_Checksum ns headerBytes pseudoHeaderChecksum;
          fullChecksum = ns_Checksum ns payload headerChecksum
      in fullChecksum XOR 0xffff)"

definition ComputeIPChecksum :: "netstack \<Rightarrow> bytes \<Rightarrow> u16" where
  "ComputeIPChecksum ns b = ns_Checksum ns b 0 XOR 0xffff"

definition ValidateIPChecksum :: "netstack \<Rightarrow> bytes \<Rightarrow> u16 \<Rightarrow> u16" where
  "ValidateIPChecksum ns b fromHeader = ns_Checksum ns b fromHeader"

text \<open>The names of the flags; \<open>range\<close> visits the map in an unspecified order \<open>ord\<close>.\<close>

definition strMap :: "netstack \<Rightarrow> (u8 \<times> string) list" where
  "strMap ns = [(ns_FlagAck ns, ''ACK''), (ns_FlagFin ns, ''FIN''), (ns_FlagPsh ns, ''PSH''),
     (ns_FlagRst ns, ''RST''), (ns_FlagSyn ns, ''SYN''), (ns_FlagUrg ns, ''URG'')]"

fun join_strings :: "string \<Rightarrow> string list \<Rightarrow> string" where
  "join_strings sep [] = []"
| "join_strings sep [s] = s"
| "join_strings sep (s # t # r) = s @ sep @ join_strings sep (t # r)"

definition TCPFlagsAsString :: "(u8 \<times> string) list \<Rightarrow> u8 \<Rightarrow> string" where
  "TCPFlagsAsString ord flags = join_strings ''+'' (map snd (filter (\<lambda>(b, s). b AND flags = b) ord))"

definition TCPFieldsToString :: "(u8 \<times> string) list \<Rightarrow> TCPFields \<Rightarrow> string" where
  "TCPFieldsToString ord hdr =
     ''{SrcPort:'' @ show_nat (unat (tf_SrcPort hdr)) @ '' DstPort:'' @ show_nat (unat (tf_DstPort hdr))
     @ '', SeqNum:'' @ show_nat (unat (tf_SeqNum hdr)) @ '' AckNum:'' @ show_nat (unat (tf_AckNum hdr))
     @ '' DataOffset:'' @ show_nat (unat (tf_DataOffset hdr))
     @ '' Flags:'' @ TCPFlagsAsString ord (tf_Flags hdr)
     @ '' WindowSize:'' @ show_nat (unat (tf_WindowSize hdr))
     @ '' Checksum:'' @ show_hex (unat (tf_Checksum hdr))
     @ '' UrgentPointer:'' @ show_nat (unat (tf_UrgentPointer hdr)) @ ''}''"

section \<open>What is relied on of netstack\<close>

definition netstack_flags :: "netstack \<Rightarrow> bool" where
  "netstack_flags ns \<longleftrightarrow>
     ns_FlagFin ns = 1 \<and> ns_FlagSyn ns = 2 \<and> ns_FlagRst ns = 4 \<and> ns_FlagPsh ns = 8 \<and>
     ns_FlagAck ns = 16 \<and> ns_FlagUrg ns = 32"

text \<open>
  The accessors read back what \<open>Encode\<close> wrote, also with a payload behind the header
  (the data offset is stored in units of four bytes).
\<close>

definition netstack_codec :: "netstack \<Rightarrow> bool" where
  "netstack_codec ns \<longleftrightarrow> ns_TCPMinimumSize ns = 20 \<and> ns_TCPProtocolNumber ns = 6 \<and>
     (\<forall>f p. length (ns_Encode ns f) = 20 \<and>
        ns_SourcePort ns (ns_Encode ns f @ p) = Inr (tf_SrcPort f) \<and>
        ns_DestinationPort ns (ns_Encode ns f @ p) = Inr (tf_DstPort f) \<and>
        ns_SequenceNumber ns (ns_Encode ns f @ p) = Inr (tf_SeqNum f) \<and>
        ns_AckNumber ns (ns_Encode ns f @ p) = Inr (tf_AckNum f) \<and>
        (tf_DataOffset f = 20 \<longrightarrow> ns_DataOffset ns (ns_Encode ns f @ p) = Inr 20) \<and>
        ns_Flags ns (ns_Encode ns f @ p) = Inr (tf_Flags f) \<and>
        ns_WindowSize ns (ns_Encode ns f @ p) = Inr (tf_WindowSize f) \<and>
        ns_TCPChecksum ns (ns_Encode ns f @ p) = Inr (tf_Checksum f))"

text \<open>\<open>Checksum\<close> is the ones'-complement sum of RFC 1071, started at the given value.\<close>

fun sum16 :: "bytes \<Rightarrow> nat" where
  "sum16 [] = 0"
| "sum16 [a] = 256 * unat a"
| "sum16 (a # b # r) = 256 * unat a + unat b + sum16 r"

definition oc_fold :: "nat \<Rightarrow> nat" where
  "oc_fold n = (if n = 0 then 0 else (n - 1) mod 65535 + 1)"

definition rfc1071 :: "bytes \<Rightarrow> u16 \<Rightarrow> u16" where
  "rfc1071 b initial = of_nat (oc_fold (sum16 b + unat initial))"

definition netstack_checksum :: "netstack \<Rightarrow> bool" where
  "netstack_checksum ns \<longleftrightarrow>
     (\<forall>b initial. length b \<le> 65535 \<longrightarrow> ns_Checksum ns b initial = rfc1071 b initial)"

section \<open>Ones'-complement arithmetic\<close>

lemma oc_fold_range: "0 < n \<Longrightarrow> 1 \<le> oc_fold n \<and> oc_fold n \<le> 65535"
  by (simp add: oc_fold_def Suc_le_eq)

lemma oc_fold_less: "oc_fold n < 65536"
  using oc_fold_range [of n] by (cases "n = 0") (auto simp: oc_fold_def)

lemma oc_fold_mod: "oc_fold n mod 65535 = n mod 65535"
  by (cases n) (auto simp: oc_fold_def mod_Suc_eq)

lemma oc_fold_eq_iff:
  assumes "0 < n" "1 \<le> k" "k \<le> 65535"
  shows "oc_fold n = k \<longleftrightarrow> n mod 65535 = k mod 65535"
proof
  assume "n mod 65535 = k mod 65535"
  then have "oc_fold n mod 65535 = k mod 65535" by (simp add: oc_fold_mod)
  with oc_fold_range [OF assms(1)] assms(2,3) show "oc_fold n = k"
    by (cases "k = 65535"; cases "oc_fold n = 65535") auto
qed (auto simp: oc_fold_mod)

lemma sum16_append: "even (length xs) \<Longrightarrow> sum16 (xs @ ys) = sum16 xs + sum16 ys"
  by (induction xs rule: sum16.induct) auto

lemma unat_rfc1071: "unat (rfc1071 b i) = oc_fold (sum16 b + unat i)"
  using oc_fold_less [of "sum16 b + unat i"]
  by (simp add: rfc1071_def unsigned_of_nat take_bit_nat_eq_self)

lemma xor_ffff: "unat (x XOR 0xffff :: u16) = 65535 - unat x"
proof -
  have "(0xffff :: u16) = - 1" by simp
  then have "x XOR 0xffff = NOT x" by (simp only: bit.xor_one_right)
  also have "\<dots> = 65535 - x" by (simp add: not_eq_complement)
  finally have "x XOR 0xffff = 65535 - x" .
  moreover have "x \<le> 65535" using unat_u16_less [of x] by (simp add: word_le_nat_alt)
  ultimately show ?thesis by (simp add: unat_sub)
qed

text \<open>A header validates iff its ones'-complement sum is zero and its checksum field is not.\<close>

lemma validate_iff:
  assumes "netstack_checksum ns" "length b \<le> 65535" "0 < sum16 b"
  shows "ns_Checksum ns b ck = ck \<longleftrightarrow> ck \<noteq> 0 \<and> 65535 dvd sum16 b"
proof -
  have c: "ns_Checksum ns b ck = ck \<longleftrightarrow> oc_fold (sum16 b + unat ck) = unat ck"
    using assms(1,2) by (simp add: netstack_checksum_def word_unat_eq_iff unat_rfc1071)
  show ?thesis
  proof (cases "ck = 0")
    case True
    with c oc_fold_range [OF assms(3)] show ?thesis by simp
  next
    case False
    then have "1 \<le> unat ck" "unat ck \<le> 65535"
      using unat_u16_less [of ck] by (auto simp: Suc_le_eq unat_gt_0)
    then have "oc_fold (sum16 b + unat ck) = unat ck \<longleftrightarrow> (sum16 b + unat ck) mod 65535 = unat ck mod 65535"
      by (intro oc_fold_eq_iff) auto
    also have "\<dots> \<longleftrightarrow> 65535 dvd sum16 b"
      by (metis (no_types) mod_eq_dvd_iff_nat add_diff_cancel_right' le_add2)
    finally show ?thesis using c False by simp
  qed
qed

text \<open>Storing the complemented checksum makes the sum vanish.\<close>

lemma complement_sum:
  assumes "0 < s"
  shows "65535 dvd s + (65535 - oc_fold s)"
proof -
  have "oc_fold s \<le> 65535" using oc_fold_range [OF assms] by simp
  then have "(oc_fold s + (65535 - oc_fold s)) mod 65535 = 0" by simp
  then have "(s + (65535 - oc_fold s)) mod 65535 = 0"
    by (metis mod_add_left_eq oc_fold_mod)
  then show ?thesis by auto
qed

section \<open>An instance of the hypotheses\<close>

text \<open>
  A concrete netstack that satisfies the three hypotheses: the TCP header layout of
  RFC 9293 and the checksum of RFC 1071. It serves to show that they can hold.
\<close>

definition ref_netstack :: netstack where
  "ref_netstack = \<lparr>
     ns_Checksum = rfc1071,
     ns_Encode = (\<lambda>f. put16 (tf_SrcPort f) @ put16 (tf_DstPort f) @ put32 (tf_SeqNum f) @ put32 (tf_AckNum f)
        @ [push_bit 2 (tf_DataOffset f AND 0x3c), tf_Flags f] @ put16 (tf_WindowSize f)
        @ put16 (tf_Checksum f) @ put16 (tf_UrgentPointer f)),
     ns_SourcePort = uint16_of,
     ns_DestinationPort = (\<lambda>b. uint16_of (drop 2 b)),
     ns_SequenceNumber = (\<lambda>b. uint32_of (drop 4 b)),
     ns_AckNumber = (\<lambda>b. uint32_of (drop 8 b)),
     ns_DataOffset = (\<lambda>b. case drop 12 b of [] \<Rightarrow> Inl RangePanic | x # _ \<Rightarrow> Inr (push_bit 2 (drop_bit 4 x))),
     ns_Flags = (\<lambda>b. case drop 13 b of [] \<Rightarrow> Inl RangePanic | x # _ \<Rightarrow> Inr x),
     ns_WindowSize = (\<lambda>b. uint16_of (drop 14 b)),
     ns_TCPChecksum = (\<lambda>b. uint16_of (drop 16 b)),
     ns_TCPMinimumSize = 20, ns_TCPProtocolNumber = 6,
     ns_FlagFin = 1, ns_FlagSyn = 2, ns_FlagRst = 4, ns_FlagPsh = 8, ns_FlagAck = 16, ns_FlagUrg = 32\<rparr>"

lemma ref_netstack_flags [simp]: "netstack_flags ref_netstack"
  by (simp add: netstack_flags_def ref_netstack_def)

lemma ref_netstack_checksum [simp]: "netstack_checksum ref_netstack"
  by (simp add: netstack_checksum_def ref_netstack_def)

lemma ref_netstack_codec [simp]: "netstack_codec ref_netstack"
  by (auto simp: netstack_codec_def ref_netstack_def put16_def put32_def wire_simps)

end
