(* ===== verification/Rip.thy ===== *)
theory Rip
  imports Prelude
begin

text \<open>
  \<open>pkg/rip/rip.go\<close>: the RIP packet and its wire format. \<open>ExtractRIP\<close> works on a slice:
  its slice expressions are checked against the capacity of the message, so that a
  truncated message yields entries read from the bytes behind it, and panics only where
  the announced entries exceed the capacity.
\<close>

record RipUpdate =
  ru_Cost :: u32
  ru_Address :: u32
  ru_Mask :: u32

record RipPacket =
  rp_Command :: u16
  rp_Num_entries :: u16
  rp_Entries :: "RipUpdate list"

text \<open>\<open>binary.Write\<close> of a fixed-size value into a \<open>bytes.Buffer\<close> never fails.\<close>

definition MarshalEntry :: "RipUpdate \<Rightarrow> bytes" where
  "MarshalEntry e = put32 (ru_Cost e) @ put32 (ru_Address e) @ put32 (ru_Mask e)"

definition MarshalRIP :: "RipPacket \<Rightarrow> bytes" where
  "MarshalRIP p = put16 (rp_Command p) @ put16 (rp_Num_entries p) @ concat (map MarshalEntry (rp_Entries p))"

definition slice_u32 :: "u8 slice \<Rightarrow> nat \<Rightarrow> u32 res" where
  "slice_u32 m i = bindr (slice_range m i (i + 4)) (\<lambda>s. uint32_of (vis s))"

fun extract_entries :: "u8 slice \<Rightarrow> nat \<Rightarrow> nat \<Rightarrow> RipUpdate list res" where
  "extract_entries m iter 0 = Inr []"
| "extract_entries m iter (Suc n) =
     bindr (slice_u32 m iter) (\<lambda>cost.
     bindr (slice_u32 m (iter + 4)) (\<lambda>address.
     bindr (slice_u32 m (iter + 8)) (\<lambda>msk.
     bindr (extract_entries m (iter + 12) n) (\<lambda>es.
       Inr (\<lparr>ru_Cost = cost, ru_Address = address, ru_Mask = msk\<rparr> # es)))))"

definition ExtractRIP :: "u8 slice \<Rightarrow> RipPacket res" where
  "ExtractRIP message =
     bindr (slice_to message 2) (\<lambda>c.
     bindr (uint16_of (vis c)) (\<lambda>command.
     bindr (slice_range message 2 4) (\<lambda>n.
     bindr (uint16_of (vis n)) (\<lambda>num_entries.
     bindr (extract_entries message 4 (unat num_entries)) (\<lambda>entries.
       Inr \<lparr>rp_Command = command, rp_Num_entries = num_entries, rp_Entries = entries\<rparr>)))))"

section \<open>Reading a message\<close>

abbreviation full :: "u8 slice \<Rightarrow> bytes" where
  "full m \<equiv> vis m @ spare m"

lemma uint16_of_take: "2 \<le> n \<Longrightarrow> uint16_of (take n b) = uint16_of b"
  by (cases b rule: uint16_of.cases) (auto simp: numeral_eq_Suc Suc_le_eq take_Cons split: nat.splits)

lemma uint32_of_take: "4 \<le> n \<Longrightarrow> uint32_of (take n b) = uint32_of b"
  by (cases b rule: uint32_of.cases) (auto simp: numeral_eq_Suc Suc_le_eq take_Cons split: nat.splits)

lemma uint16_of_defined: "2 \<le> length b \<Longrightarrow> \<exists>w. uint16_of b = Inr w"
  by (cases b rule: uint16_of.cases) auto

lemma uint16_of_Inl: "uint16_of b = Inl e \<Longrightarrow> e = RangePanic"
  by (cases b rule: uint16_of.cases) auto

lemma uint32_of_defined: "4 \<le> length b \<Longrightarrow> \<exists>w. uint32_of b = Inr w"
  by (cases b rule: uint32_of.cases) auto

lemma slice_u32_eq:
  "slice_u32 m i = (if i + 4 \<le> slice_cap m then uint32_of (drop i (full m)) else Inl RangePanic)"
  by (simp add: slice_u32_def slice_range_def uint32_of_take del: drop_append take_append)

lemma slice_u32_defined: "i + 4 \<le> slice_cap m \<Longrightarrow> \<exists>w. slice_u32 m i = Inr w"
  by (simp add: slice_u32_eq slice_cap_def uint32_of_defined del: drop_append)

lemma extract_entries_defined_iff:
  "(\<exists>es. extract_entries m i n = Inr es) \<longleftrightarrow> n = 0 \<or> i + 12 * n \<le> slice_cap m"
proof (induction n arbitrary: i)
  case (Suc n)
  show ?case
  proof (cases "i + 12 \<le> slice_cap m")
    case True
    then obtain a b c where "slice_u32 m i = Inr a" "slice_u32 m (i + 4) = Inr b" "slice_u32 m (i + 8) = Inr c"
      using slice_u32_defined [of i m] slice_u32_defined [of "i + 4" m] slice_u32_defined [of "i + 8" m]
      by auto
    with Suc.IH [of "i + 12"] True show ?thesis
      by (cases "extract_entries m (i + 12) n") auto
  next
    case False
    then have "slice_u32 m (i + 8) = Inl RangePanic" by (simp add: slice_u32_eq)
    with False show ?thesis
      by (cases "slice_u32 m i"; cases "slice_u32 m (i + 4)") auto
  qed
qed simp

lemma extract_entries_length: "extract_entries m i n = Inr es \<Longrightarrow> length es = n"
  by (induction n arbitrary: i es) (auto simp: bindr_eq_Inr)

lemma extract_entries_marshalled:
  assumes "drop i (full m) = concat (map MarshalEntry es) @ r"
  shows "extract_entries m i (length es) = Inr es"
  using assms
proof (induction es arbitrary: i)
  case (Cons e es)
  let ?rest = "concat (map MarshalEntry es) @ r"
  have d: "drop i (full m) = put32 (ru_Cost e) @ put32 (ru_Address e) @ put32 (ru_Mask e) @ ?rest"
    using Cons.prems by (simp add: MarshalEntry_def [of e] del: drop_append)
  have at: "drop (i + k) (full m) = drop k (put32 (ru_Cost e) @ put32 (ru_Address e) @ put32 (ru_Mask e) @ ?rest)" for k
    using d by (metis drop_drop add.commute)
  have "length (drop i (full m)) = 12 + length ?rest" using d by simp
  then have cap: "i + 12 \<le> slice_cap m" by (simp add: slice_cap_def del: drop_append)
  then have "slice_u32 m i = Inr (ru_Cost e)" "slice_u32 m (i + 4) = Inr (ru_Address e)"
      "slice_u32 m (i + 8) = Inr (ru_Mask e)"
    using at [of 0] at [of 4] at [of 8]
    by (simp_all add: slice_u32_eq wire_simps del: drop_append) (simp_all add: wire_simps put32_def)
  moreover have "extract_entries m (i + 12) (length es) = Inr es"
    using at [of 12] by (intro Cons.IH) (simp add: put32_def)
  ultimately show ?case by simp
qed simp

lemma ExtractRIP_eq:
  "ExtractRIP m =
     (if slice_cap m < 4 then Inl RangePanic
      else bindr (uint16_of (full m)) (\<lambda>c.
           bindr (uint16_of (drop 2 (full m))) (\<lambda>n.
           bindr (extract_entries m 4 (unat n)) (\<lambda>es.
             Inr \<lparr>rp_Command = c, rp_Num_entries = n, rp_Entries = es\<rparr>))))"
proof (cases "slice_cap m < 4")
  case True
  then show ?thesis
    by (cases "slice_to m 2"; cases "uint16_of (full m)")
      (auto simp: ExtractRIP_def slice_to_def slice_range_def uint16_of_take bindr_def
        simp del: drop_append take_append dest: uint16_of_Inl split: sum.splits if_splits)
next
  case False
  then show ?thesis
    by (simp add: ExtractRIP_def slice_to_def slice_range_def uint16_of_take del: drop_append take_append)
qed

lemma ExtractRIP_MarshalRIP:
  assumes "unat (rp_Num_entries p) = length (rp_Entries p)"
    and "vis m = MarshalRIP p @ r"
  shows "ExtractRIP m = Inr p"
proof -
  have f: "full m = put16 (rp_Command p) @ put16 (rp_Num_entries p)
      @ concat (map MarshalEntry (rp_Entries p)) @ r @ spare m"
    using assms(2) by (simp add: MarshalRIP_def)
  then have "drop 4 (full m) = concat (map MarshalEntry (rp_Entries p)) @ r @ spare m"
    and c: "uint16_of (full m) = Inr (rp_Command p)"
    and n: "uint16_of (drop 2 (full m)) = Inr (rp_Num_entries p)"
    by (simp_all add: put16_def wire_simps)
  then have "extract_entries m 4 (length (rp_Entries p)) = Inr (rp_Entries p)"
    by (intro extract_entries_marshalled)
  moreover have "\<not> slice_cap m < 4"
    using arg_cong [OF f, of length] by (simp add: slice_cap_def)
  ultimately show ?thesis
    using assms(1) c n by (simp add: ExtractRIP_eq)
qed

text \<open>
  C18: what \<open>MarshalRIP\<close> writes, \<open>ExtractRIP\<close> reads back: for a packet whose entry count
  is the number of its entries, in whatever buffer the message sits (any bytes may follow
  it, within or behind the slice).
\<close>
theorem rip_roundtrip:
  assumes "unat (rp_Num_entries p) = length (rp_Entries p)"
    and "vis m = MarshalRIP p @ r"
  shows "ExtractRIP m = Inr p"
  using assms by (rule ExtractRIP_MarshalRIP)

definition rip_example :: RipPacket where
  "rip_example = \<lparr>rp_Command = 2, rp_Num_entries = 1,
     rp_Entries = [\<lparr>ru_Cost = 3, ru_Address = 0x0a010000, ru_Mask = 0xffffff00\<rparr>]\<rparr>"

theorem rip_roundtrip_witness: "ExtractRIP (slice_of (MarshalRIP rip_example @ [7])) = Inr rip_example"
  by (rule rip_roundtrip [where r = "[7]"]) (simp_all add: rip_example_def slice_of_def)

text \<open>
  \<open>ExtractRIP\<close> panics exactly when the announced entries do not fit the capacity of
  the message; otherwise it returns as many entries as announced, even where they lie
  behind the end of the message.
\<close>
theorem rip_extract_panics_iff:
  "(if slice_cap m < 4 then ExtractRIP m = Inl RangePanic
    else \<exists>n. uint16_of (drop 2 (vis m @ spare m)) = Inr n \<and>
      (if n \<noteq> 0 \<and> slice_cap m < 4 + 12 * unat n then \<exists>f. ExtractRIP m = Inl f
       else \<exists>p. ExtractRIP m = Inr p \<and> rp_Num_entries p = n \<and> length (rp_Entries p) = unat n))"
proof (cases "slice_cap m < 4")
  case True
  then show ?thesis by (simp add: ExtractRIP_eq)
next
  case False
  then have "2 \<le> length (full m)" "2 \<le> length (drop 2 (full m))"
    by (auto simp: slice_cap_def simp del: drop_append)
  then obtain c n where cn: "uint16_of (full m) = Inr c" "uint16_of (drop 2 (full m)) = Inr n"
    using uint16_of_defined by blast
  show ?thesis
  proof (cases "extract_entries m 4 (unat n)")
    case (Inl e)
    then have "\<not> (unat n = 0 \<or> 4 + 12 * unat n \<le> slice_cap m)"
      using extract_entries_defined_iff [of m 4 "unat n"] by auto
    with Inl False cn show ?thesis
      by (simp add: ExtractRIP_eq unat_eq_0 del: drop_append)
  next
    case (Inr es)
    then have "unat n = 0 \<or> 4 + 12 * unat n \<le> slice_cap m"
      using extract_entries_defined_iff [of m 4 "unat n"] by auto
    with Inr False cn extract_entries_length [OF Inr] show ?thesis
      by (auto simp: ExtractRIP_eq unat_eq_0 simp del: drop_append)
  qed
qed

end
