(* ===== verification/Lnxconfig.thy ===== *)
theory Lnxconfig
  imports Netip
begin

text \<open>
  \<open>pkg/lnxconfig/lnxconfig.go\<close>: the configuration file. A line is an ASCII string, the
  file the list of lines that \<open>bufio.Scanner\<close> yields. Each parser returns an error value,
  the updated configuration, or the fault with which it panics. The lemmas give the
  invariant that the node relies on.
\<close>

section \<open>Data\<close>

datatype RoutingMode = RoutingTypeNone | RoutingTypeStatic | RoutingTypeRIP

record InterfaceConfig =
  ic_Name :: string
  ic_AssignedIP :: Addr
  ic_AssignedPrefix :: Prefix
  ic_UDPAddr :: AddrPort

record NeighborConfig =
  nc_DestAddr :: Addr
  nc_UDPAddr :: AddrPort
  nc_InterfaceName :: string

record IPConfig =
  cfg_Interfaces :: "InterfaceConfig list"
  cfg_Neighbors :: "NeighborConfig list"
  cfg_OriginatingPrefixes :: "Prefix list"
  cfg_RoutingMode :: RoutingMode
  cfg_RipNeighbors :: "Addr list"
  cfg_StaticRoutes :: "(Prefix \<times> Addr) list"

text \<open>
  Errors: the program's own messages, errors of the standard library (whose text is not
  modelled), and either of them wrapped with a line number by \<open>newErr\<close>.
\<close>

datatype cfg_error = ErrMsg string | ErrLib | ErrAt nat cfg_error

definition newErrString :: "nat \<Rightarrow> string \<Rightarrow> cfg_error" where
  "newErrString ln msg = ErrMsg (''Parse error on line '' @ show_nat ln @ '':  '' @ msg)"

definition newErr :: "nat \<Rightarrow> cfg_error \<Rightarrow> cfg_error" where
  "newErr ln e = ErrAt ln e"

type_synonym parse_result = "(cfg_error + IPConfig) res"

section \<open>Strings and scanning\<close>

text \<open>\<open>strings.Split(s, " ")\<close>: never empty.\<close>

fun split_spaces :: "string \<Rightarrow> string list" where
  "split_spaces [] = [[]]"
| "split_spaces (c # cs) =
     (if c = CHR '' '' then [] # split_spaces cs
      else case split_spaces cs of [] \<Rightarrow> [[c]] | t # ts \<Rightarrow> (c # t) # ts)"

definition is_space :: "char \<Rightarrow> bool" where
  "is_space c \<longleftrightarrow> (of_char c :: nat) \<in> {9, 10, 11, 12, 13, 32}"

text \<open>
  \<open>fmt.Fscanf\<close> with formats of literal characters, single spaces and \<open>%s\<close>: a space
  matches one or more spaces, or the end of the input; \<open>%s\<close> skips spaces and takes the
  next word, which must exist. Input behind the format is ignored.
\<close>

datatype fmt_item = FLit char | FSpace | FStr

fun fscanf :: "fmt_item list \<Rightarrow> string \<Rightarrow> string list option" where
  "fscanf [] s = Some []"
| "fscanf (FSpace # f) [] = fscanf f []"
| "fscanf (FSpace # f) (c # cs) = (if is_space c then fscanf f (dropWhile is_space cs) else None)"
| "fscanf (FLit l # f) [] = None"
| "fscanf (FLit l # f) (c # cs) = (if c = l then fscanf f cs else None)"
| "fscanf (FStr # f) s =
     (let s' = dropWhile is_space s
      in if s' = [] then None
         else map_option (\<lambda>ws. takeWhile (\<lambda>c. \<not> is_space c) s' # ws)
                (fscanf f (dropWhile (\<lambda>c. \<not> is_space c) s')))"

section \<open>The directives\<close>

definition addOriginatingPrefix :: "IPConfig \<Rightarrow> Prefix \<Rightarrow> cfg_error + IPConfig" where
  "addOriginatingPrefix config prefix =
     (if \<exists>iface \<in> set (cfg_Interfaces config). ic_AssignedPrefix iface = prefix
      then Inr (config\<lparr>cfg_OriginatingPrefixes := cfg_OriginatingPrefixes config @ [prefix]\<rparr>)
      else Inl (ErrMsg (''No matching prefix '' @ prefix_String prefix @ '' in config'')))"

definition addRipNeighbor :: "IPConfig \<Rightarrow> Addr \<Rightarrow> cfg_error + IPConfig" where
  "addRipNeighbor config neighbor =
     (if \<exists>iface \<in> set (cfg_Neighbors config). nc_DestAddr iface = neighbor
      then Inr (config\<lparr>cfg_RipNeighbors := cfg_RipNeighbors config @ [neighbor]\<rparr>)
      else Inl (ErrMsg (''RIP neighbor '' @ addr_String neighbor @ '' is not a neighbor IP'')))"

text \<open>
  \<open>rip originate\<close> indexes its arguments before it knows that they exist: the guard is a
  conjunction, so with no argument \<open>ripTokens[0]\<close> panics, and with the single argument
  \<open>prefix\<close> \<open>ripTokens[1]\<close> does.
\<close>

definition parseRip :: "nat \<Rightarrow> string \<Rightarrow> IPConfig \<Rightarrow> parse_result" where
  "parseRip ln line config =
     (case split_spaces line of
        t0 # cmd # ripTokens \<Rightarrow>
          if cmd = ''originate'' then
            (case ripTokens of
               [] \<Rightarrow> Inl RangePanic
             | [t] \<Rightarrow> if t \<noteq> ''prefix'' then Inr (Inl (newErrString ln ''Usage:  rip originate prefix <prefix>''))
                      else Inl RangePanic
             | t # p # r \<Rightarrow>
                 (case ParsePrefix p of
                    None \<Rightarrow> Inr (Inl (newErr ln ErrLib))
                  | Some ripPrefix \<Rightarrow> Inr (addOriginatingPrefix config (Masked ripPrefix))))
          else if cmd = ''advertise-to'' then
            (case ripTokens of
               [] \<Rightarrow> Inr (Inl (newErrString ln ''Usage:  rip advertise-to <neighbor IP>''))
             | a # r \<Rightarrow>
                 (case ParseAddr a of
                    None \<Rightarrow> Inr (Inl (newErr ln ErrLib))
                  | Some addr \<Rightarrow> Inr (addRipNeighbor config addr)))
          else Inr (Inl (newErrString ln (''Unrecognized RIP command '' @ cmd)))
      | _ \<Rightarrow> Inr (Inl (newErrString ln ''Usage:  rip [cmd] ...'')))"

definition parseRouting :: "nat \<Rightarrow> string \<Rightarrow> IPConfig \<Rightarrow> parse_result" where
  "parseRouting ln line config =
     (case split_spaces line of
        t0 # rt # r \<Rightarrow>
          if rt = ''static'' then Inr (Inr (config\<lparr>cfg_RoutingMode := RoutingTypeStatic\<rparr>))
          else if rt = ''rip'' then Inr (Inr (config\<lparr>cfg_RoutingMode := RoutingTypeRIP\<rparr>))
          else Inr (Inl (newErrString ln (''Invalid routing type:  '' @ rt)))
      | _ \<Rightarrow> Inr (Inl (newErrString ln ''routing directive must have format:  routing <type>'')))"

definition fmt_lit :: "string \<Rightarrow> fmt_item list" where
  "fmt_lit s = map FLit s"

text \<open>
  After a successful scan all words are there, so the counts the source checks next
  (\<open>n != 2\<close>, \<open>n != 3\<close>) cannot differ.
\<close>

definition parseRoute :: "nat \<Rightarrow> string \<Rightarrow> IPConfig \<Rightarrow> parse_result" where
  "parseRoute ln line config =
     (case fscanf (fmt_lit ''route'' @ [FSpace, FStr, FSpace] @ fmt_lit ''via'' @ [FSpace, FStr]) line of
        Some [sPrefix, sAddr] \<Rightarrow>
          (case ParsePrefix sPrefix of
             None \<Rightarrow> Inr (Inl ErrLib)
           | Some prefix \<Rightarrow>
               (case ParseAddr sAddr of
                  None \<Rightarrow> Inr (Inl ErrLib)
                | Some addr \<Rightarrow>
                    Inr (Inr (config\<lparr>cfg_StaticRoutes := AList.update prefix addr (cfg_StaticRoutes config)\<rparr>))))
      | _ \<Rightarrow> Inr (Inl ErrLib))"

definition parseInterface :: "nat \<Rightarrow> string \<Rightarrow> IPConfig \<Rightarrow> parse_result" where
  "parseInterface ln line config =
     (case fscanf (fmt_lit ''interface'' @ [FSpace, FStr, FSpace, FStr, FSpace, FStr]) line of
        Some [sName, sPrefix, sBindAddr] \<Rightarrow>
          (case ParsePrefix sPrefix of
             None \<Rightarrow> Inr (Inl ErrLib)
           | Some prefix \<Rightarrow>
               (case ParseAddrPort sBindAddr of
                  None \<Rightarrow> Inr (Inl ErrLib)
                | Some addrPort \<Rightarrow>
                    Inr (Inr (config\<lparr>cfg_Interfaces := cfg_Interfaces config @
                      [\<lparr>ic_Name = sName, ic_AssignedIP = pfx_Addr prefix,
                        ic_AssignedPrefix = Masked prefix, ic_UDPAddr = addrPort\<rparr>]\<rparr>))))
      | _ \<Rightarrow> Inr (Inl ErrLib))"

definition parseNeighbor :: "nat \<Rightarrow> string \<Rightarrow> IPConfig \<Rightarrow> parse_result" where
  "parseNeighbor ln line config =
     (case fscanf (fmt_lit ''neighbor'' @ [FSpace, FStr, FSpace] @ fmt_lit ''at'' @ [FSpace, FStr, FSpace]
                   @ fmt_lit ''via'' @ [FSpace, FStr]) line of
        Some [sDestAddr, sUDPAddr, sIfName] \<Rightarrow>
          (case ParseAddr sDestAddr of
             None \<Rightarrow> Inr (Inl ErrLib)
           | Some destAddr \<Rightarrow>
               (case ParseAddrPort sUDPAddr of
                  None \<Rightarrow> Inr (Inl ErrLib)
                | Some udpAddr \<Rightarrow>
                    Inr (Inr (config\<lparr>cfg_Neighbors := cfg_Neighbors config @
                      [\<lparr>nc_DestAddr = destAddr, nc_UDPAddr = udpAddr, nc_InterfaceName = sIfName\<rparr>]\<rparr>))))
      | _ \<Rightarrow> Inr (Inl ErrLib))"

section \<open>The file\<close>

definition parseCommands :: "string \<Rightarrow> (nat \<Rightarrow> string \<Rightarrow> IPConfig \<Rightarrow> parse_result) option" where
  "parseCommands = map_of [(''interface'', parseInterface), (''neighbor'', parseNeighbor),
     (''routing'', parseRouting), (''route'', parseRoute), (''rip'', parseRip)]"

definition emptyConfig :: IPConfig where
  "emptyConfig = \<lparr>cfg_Interfaces = [], cfg_Neighbors = [], cfg_OriginatingPrefixes = [],
     cfg_RoutingMode = RoutingTypeNone, cfg_RipNeighbors = [], cfg_StaticRoutes = []\<rparr>"

definition parseLine :: "nat \<Rightarrow> string \<Rightarrow> IPConfig \<Rightarrow> parse_result" where
  "parseLine ln line config =
     (let head = hd (split_spaces line)
      in if head = [] \<or> hd head = CHR ''#'' then Inr (Inr config)
         else case parseCommands head of
           None \<Rightarrow> Inr (Inl (newErrString ln (''Unrecognized token '' @ head)))
         | Some pf \<Rightarrow> bindr (pf ln line config) (\<lambda>r. Inr (map_sum (newErr ln) id r)))"

fun parseLines :: "nat \<Rightarrow> string list \<Rightarrow> IPConfig \<Rightarrow> parse_result" where
  "parseLines ln [] config = Inr (Inr config)"
| "parseLines ln (line # rest) config =
     bindr (parseLine (Suc ln) line config) (\<lambda>r.
       case r of Inl e \<Rightarrow> Inr (Inl e) | Inr config' \<Rightarrow> parseLines (Suc ln) rest config')"

text \<open>\<open>None\<close>: the file cannot be opened.\<close>

definition ParseConfig :: "string list option \<Rightarrow> parse_result" where
  "ParseConfig file =
     (case file of
        None \<Rightarrow> Inr (Inl (ErrMsg ''Unable to open file''))
      | Some lines \<Rightarrow> parseLines 0 lines emptyConfig)"

section \<open>The invariant of a configuration\<close>

definition config_ok :: "IPConfig \<Rightarrow> bool" where
  "config_ok c \<longleftrightarrow>
     (\<forall>i \<in> set (cfg_Interfaces c). valid_prefix (ic_AssignedPrefix i) \<and>
        Masked (ic_AssignedPrefix i) = ic_AssignedPrefix i \<and>
        Contains (ic_AssignedPrefix i) (ic_AssignedIP i)) \<and>
     (\<forall>a \<in> set (cfg_RipNeighbors c). \<exists>n \<in> set (cfg_Neighbors c). nc_DestAddr n = a) \<and>
     (\<forall>p \<in> set (cfg_OriginatingPrefixes c). \<exists>i \<in> set (cfg_Interfaces c). ic_AssignedPrefix i = p) \<and>
     (\<forall>n \<in> set (cfg_Neighbors c). nc_DestAddr n \<noteq> AddrZero) \<and>
     (\<forall>(p, a) \<in> set (cfg_StaticRoutes c). valid_prefix p \<and> a \<noteq> AddrZero) \<and>
     distinct (map fst (cfg_StaticRoutes c))"

lemma drop_push_drop: "drop_bit k (push_bit k (drop_bit k w)) = drop_bit k (w :: 'a::len word)"
  by (rule bit_word_eqI) (auto simp: bit_simps dest: bit_imp_le_length)

lemma ParseAddr_nonzero [simp]: "ParseAddr s \<noteq> Some AddrZero"
  by (auto simp: ParseAddr_def parseIPv6_def Let_def split: option.splits if_splits)

lemma ParsePrefix_valid:
  assumes "ParsePrefix s = Some p"
  shows "valid_prefix p" and "\<And>w z. pfx_Addr p = Addr6 w z \<Longrightarrow> z = []"
  using assms
  by (auto simp: ParsePrefix_def valid_prefix_def split: option.splits if_splits Addr.splits prod.splits)

lemma Masked_valid:
  assumes "valid_prefix p" "\<And>w z. pfx_Addr p = Addr6 w z \<Longrightarrow> z = []"
  shows "valid_prefix (Masked p)" "Masked (Masked p) = Masked p" "Contains (Masked p) (pfx_Addr p)"
  using assms
  by (cases p rule: Masked.cases; auto simp: valid_prefix_def drop_push_drop drop_bit_xor)+

lemma parse_directive_ok:
  assumes "config_ok c"
  shows "parseInterface ln line c = Inr (Inr c') \<Longrightarrow> config_ok c'"
    and "parseNeighbor ln line c = Inr (Inr c') \<Longrightarrow> config_ok c'"
    and "parseRouting ln line c = Inr (Inr c') \<Longrightarrow> config_ok c'"
    and "parseRoute ln line c = Inr (Inr c') \<Longrightarrow> config_ok c'"
    and "parseRip ln line c = Inr (Inr c') \<Longrightarrow> config_ok c'"
proof -
  show "config_ok c'" if p: "parseInterface ln line c = Inr (Inr c')"
  proof -
    obtain sPrefix prefix i where "ParsePrefix sPrefix = Some prefix" "ic_AssignedPrefix i = Masked prefix"
        "ic_AssignedIP i = pfx_Addr prefix" "c' = c\<lparr>cfg_Interfaces := cfg_Interfaces c @ [i]\<rparr>"
      using p by (force simp: parseInterface_def split: option.splits list.splits)
    with assms Masked_valid [OF ParsePrefix_valid, of sPrefix prefix] show ?thesis
      by (auto simp: config_ok_def)
  qed
  show "parseNeighbor ln line c = Inr (Inr c') \<Longrightarrow> config_ok c'"
    using assms by (auto simp: parseNeighbor_def config_ok_def split: option.splits list.splits)
  show "parseRouting ln line c = Inr (Inr c') \<Longrightarrow> config_ok c'"
    using assms by (auto simp: parseRouting_def config_ok_def split: list.splits if_splits)
  show "parseRoute ln line c = Inr (Inr c') \<Longrightarrow> config_ok c'"
    using assms
    by (auto simp: parseRoute_def config_ok_def distinct_update dest!: in_set_update dest: ParsePrefix_valid(1)
        split: option.splits list.splits)
  show "parseRip ln line c = Inr (Inr c') \<Longrightarrow> config_ok c'"
    using assms
    by (auto simp: parseRip_def config_ok_def addOriginatingPrefix_def addRipNeighbor_def
        split: option.splits list.splits if_splits)
qed

lemma parseCommands_cases:
  "parseCommands h = Some pf \<Longrightarrow>
     pf = parseInterface \<or> pf = parseNeighbor \<or> pf = parseRouting \<or> pf = parseRoute \<or> pf = parseRip"
  unfolding parseCommands_def by (drule map_of_SomeD) auto

lemma parseLine_ok:
  assumes "config_ok c" "parseLine ln line c = Inr (Inr c')"
  shows "config_ok c'"
proof -
  from assms(2) consider "c' = c" | pf where "parseCommands (hd (split_spaces line)) = Some pf"
      "pf ln line c = Inr (Inr c')"
    by (auto simp: parseLine_def Let_def bindr_eq_Inr map_sum_eq_Inr split: if_splits option.splits)
  then show ?thesis
  proof cases
    case 2
    from parseCommands_cases [OF 2(1)] 2(2) show ?thesis
      by (elim disjE) (simp_all add: parse_directive_ok [OF assms(1)])
  qed (use assms(1) in simp)
qed

lemma parseLines_ok: "config_ok c \<Longrightarrow> parseLines ln lines c = Inr (Inr c') \<Longrightarrow> config_ok c'"
proof (induction lines arbitrary: ln c)
  case (Cons line lines)
  from Cons.prems(2) obtain c1 where "parseLine (Suc ln) line c = Inr (Inr c1)"
      "parseLines (Suc ln) lines c1 = Inr (Inr c')"
    by (cases "parseLine (Suc ln) line c"; cases "projr (parseLine (Suc ln) line c)") auto
  with Cons.IH parseLine_ok [OF Cons.prems(1)] show ?case by blast
qed simp

definition example_config :: "string list" where
  "example_config =
     [''# a host'',
      ''interface if0 10.1.0.1/24 127.0.0.1:5000'',
      ''neighbor 10.1.0.10 at 127.0.0.1:6001 via if0'',
      ''routing rip'',
      ''rip advertise-to 10.1.0.10'',
      ''route 0.0.0.0/0 via 10.1.0.10'']"

text \<open>
  C20: a configuration file that parses yields a well-formed configuration: the prefix of
  every interface is valid, has its host bits cleared and contains the interface's own
  address; every RIP neighbour is one of the neighbours and every originated prefix one of
  the interfaces'; static routes have a valid prefix, a next hop, and no two of them share
  a prefix.
\<close>
theorem parse_config_ok:
  assumes "ParseConfig file = Inr (Inr c)"
  shows "config_ok c"
proof -
  have "config_ok emptyConfig" by (simp add: config_ok_def emptyConfig_def)
  then show ?thesis
    using assms parseLines_ok by (auto simp: ParseConfig_def split: option.splits)
qed

theorem parse_config_ok_witness:
  "\<exists>c. ParseConfig (Some [''# a router'', ''routing rip'']) = Inr (Inr c) \<and> config_ok c"
proof -
  have "ParseConfig (Some [''# a router'', ''routing rip'']) =
      Inr (Inr (emptyConfig\<lparr>cfg_RoutingMode := RoutingTypeRIP\<rparr>))"
    by (simp add: ParseConfig_def parseLine_def parseCommands_def parseRouting_def)
  with parse_config_ok [OF this] show ?thesis by blast
qed

end
