(* ===== verification/Node.thy ===== *)
theory Node
  imports Ipv4_Header Iptcp_Utils Rip Lnxconfig
begin

text \<open>
  \<open>pkg/node/node.go\<close>, first part: the state of a node, building packets, and the
  forwarding path. A handler returns the effects it has on the outside (messages handed to
  an interface's channel, datagrams, deliveries to TCP, output) or the fault that ends the
  process. Go maps are association lists in the order \<open>range\<close> happens to visit them; the
  lemmas show where the result depends on that order and where it does not.
\<close>

section \<open>State\<close>

record ForwardingInfo =
  fi_route_type :: string
  fi_next :: Addr
  fi_pre :: Prefix
  fi_cost :: int
  fi_last_updated :: int
  fi_ifname :: string

text \<open>
  The mutex of an interface is a pointer, nil until \<open>interfaceRoutine\<close> sets it in its own
  copy of the structure. Times are nanoseconds.
\<close>

record Interface = InterfaceConfig +
  if_enabled :: bool
  if_enableMutex :: "unit option"

datatype HandlerFunc = Protocol0 | Protocol6 | Protocol200 | Callback nat

record Node =
  n_neighbors :: "NeighborConfig list"
  n_interfaces :: "(string \<times> Interface) list"
  n_neighborTable :: "(Addr \<times> NeighborConfig) list"
  n_forwardingTable :: "(Prefix \<times> ForwardingInfo) list"
  n_handlerTable :: "(int \<times> HandlerFunc) list"
  n_ripNeighbors :: "Addr list"
  n_IpAddr :: Addr

record SocketTableKey =
  sk_LocalAddr :: Addr
  sk_LocalPort :: u16
  sk_RemoteAddr :: Addr
  sk_RemotePort :: u16

record TCPInfo =
  ti_key :: SocketTableKey
  ti_Flag :: u8
  ti_SeqNum :: u32
  ti_AckNum :: u32
  ti_WindowSize :: u16
  ti_Payload :: bytes

datatype effect =
    ToInterface string bytes Addr  \<comment> \<open>\<open>node.interfaces[name].sendInterfaceChan <-\<close> packet, next hop\<close>
  | UDPWrite bytes AddrPort        \<comment> \<open>\<open>conn.WriteToUDP\<close>\<close>
  | ToTCP TCPInfo                  \<comment> \<open>\<open>node.TCPChan <-\<close>\<close>
  | CallHandler nat bytes IPv4Header
  | Print string

definition INFTY :: int where
  "INFTY = 16"

definition MaxMessageSize :: nat where
  "MaxMessageSize = 1400"

text \<open>Zero values, as reading a missing key of a Go map yields them.\<close>

definition zeroInterface :: Interface where
  "zeroInterface = \<lparr>ic_Name = [], ic_AssignedIP = AddrZero, ic_AssignedPrefix = PrefixZero,
     ic_UDPAddr = AddrPortZero, if_enabled = False, if_enableMutex = None\<rparr>"

definition zeroNeighbor :: NeighborConfig where
  "zeroNeighbor = \<lparr>nc_DestAddr = AddrZero, nc_UDPAddr = AddrPortZero, nc_InterfaceName = []\<rparr>"

definition getInterface :: "Node \<Rightarrow> string \<Rightarrow> Interface" where
  "getInterface node name = (case map_of (n_interfaces node) name of None \<Rightarrow> zeroInterface | Some i \<Rightarrow> i)"

definition getNeighbor :: "Node \<Rightarrow> Addr \<Rightarrow> NeighborConfig" where
  "getNeighbor node a = (case map_of (n_neighborTable node) a of None \<Rightarrow> zeroNeighbor | Some n \<Rightarrow> n)"

section \<open>Packets\<close>

definition ValidateChecksum :: "netstack \<Rightarrow> bytes \<Rightarrow> u16 \<Rightarrow> u16" where
  "ValidateChecksum ns b fromHeader = ns_Checksum ns b fromHeader"

definition ComputeChecksum :: "netstack \<Rightarrow> bytes \<Rightarrow> u16" where
  "ComputeChecksum ns b = ns_Checksum ns b 0 XOR 0xffff"

definition makeHeader :: "Addr \<Rightarrow> Addr \<Rightarrow> int \<Rightarrow> int \<Rightarrow> nat \<Rightarrow> IPv4Header" where
  "makeHeader src dst protocolNum ttl len =
     \<lparr>h_Version = 4, h_Len = 20, h_TOS = 0, h_TotalLen = HeaderLen + int len, h_ID = 0, h_Flags = 0,
      h_FragOff = 0, h_TTL = ttl, h_Protocol = protocolNum, h_Checksum = 0, h_Src = src, h_Dst = dst,
      h_Options = []\<rparr>"

definition makePacket :: "netstack \<Rightarrow> Addr \<Rightarrow> Addr \<Rightarrow> int \<Rightarrow> int \<Rightarrow> bytes \<Rightarrow> bytes res" where
  "makePacket ns src dst protocolNum ttl data =
     bindr (MustParseAddr (addr_String src)) (\<lambda>s.
     bindr (MustParseAddr (addr_String dst)) (\<lambda>d.
       let hdr = makeHeader s d protocolNum ttl (length data)
       in case Marshal (Some hdr) of
            Inl e \<Rightarrow> Inl FatalExit
          | Inr headerBytes \<Rightarrow>
              (case Marshal (Some (hdr\<lparr>h_Checksum := uint (ComputeChecksum ns headerBytes)\<rparr>)) of
                 Inl e \<Rightarrow> Inl FatalExit
               | Inr headerBytes' \<Rightarrow> Inr (headerBytes' @ data))))"

section \<open>Neighbours and the forwarding decision\<close>

definition createNeighborTable :: "NeighborConfig list \<Rightarrow> (Addr \<times> NeighborConfig) list" where
  "createNeighborTable ns = foldl (\<lambda>t n. AList.update (nc_DestAddr n) n t) [] ns"

definition dummyUDP :: AddrPort where
  "dummyUDP = \<lparr>ap_Addr = Addr4 0x7f000001, ap_Port = 1680\<rparr>"

definition neighborUDP :: "Node \<Rightarrow> Addr \<Rightarrow> AddrPort \<times> bool" where
  "neighborUDP node dst =
     (case find (\<lambda>n. nc_DestAddr n = dst) (n_neighbors node) of
        Some n \<Rightarrow> (nc_UDPAddr n, True)
      | None \<Rightarrow> (dummyUDP, False))"

text \<open>\<open>net.ResolveUDPAddr("udp4", \<dots>)\<close> accepts IPv4 addresses, also mapped into IPv6.\<close>

fun resolves_udp4 :: "Addr \<Rightarrow> bool" where
  "resolves_udp4 (Addr4 _) = True"
| "resolves_udp4 (Addr6 w z) = Is4In6 w"
| "resolves_udp4 AddrZero = False"

definition forwardPacket :: "Node \<Rightarrow> Addr \<Rightarrow> bytes \<Rightarrow> effect list" where
  "forwardPacket node nextAddr p =
     (let (udpPort, found) = neighborUDP node nextAddr; ok = resolves_udp4 (ap_Addr udpPort)
      in (if ok then [] else [Print ''error resolving udp address''])
         @ (if \<not> found then [Print ''Destination VIP is not a known neighbor'']
            else if ok then [UDPWrite p udpPort]
            else [Print ''Error writing to socket'']))"

fun checkDest_loop :: "(string \<times> Interface) list \<Rightarrow> Addr \<Rightarrow> Interface \<Rightarrow> int \<Rightarrow> Interface \<times> int" where
  "checkDest_loop [] dst toUse len = (toUse, len)"
| "checkDest_loop ((name, iface) # rest) dst toUse len =
     (if Contains (ic_AssignedPrefix iface) dst \<and> len < pfx_Bits (ic_AssignedPrefix iface)
      then checkDest_loop rest dst iface (pfx_Bits (ic_AssignedPrefix iface))
      else checkDest_loop rest dst toUse len)"

definition checkDest :: "Node \<Rightarrow> Addr \<Rightarrow> bool" where
  "checkDest node dst =
     (let (toUse, len) = checkDest_loop (n_interfaces node) dst zeroInterface (-1)
      in if len = -1 then False else dst = ic_AssignedIP toUse)"

fun FindNext_loop ::
  "(Prefix \<times> ForwardingInfo) list \<Rightarrow> Addr \<Rightarrow> ForwardingInfo option \<Rightarrow> int \<Rightarrow> ForwardingInfo option \<times> int" where
  "FindNext_loop [] dst useForward len = (useForward, len)"
| "FindNext_loop ((k, forward) # rest) dst useForward len =
     (if Contains (fi_pre forward) dst \<and> len < pfx_Bits (fi_pre forward)
      then FindNext_loop rest dst (Some forward) (pfx_Bits (fi_pre forward))
      else FindNext_loop rest dst useForward len)"

definition FindNext :: "Node \<Rightarrow> Addr \<Rightarrow> (Addr \<times> string \<times> bool) res" where
  "FindNext node dst =
     (if checkDest node dst then Inr (dst, ''L'', True)
      else let (useForward, len) = FindNext_loop (n_forwardingTable node) dst None (-1)
           in if len = -1 then Inr (Addr4 0, ''hello'', False)
              else (case useForward of
                      None \<Rightarrow> Inl NilPanic
                    | Some f \<Rightarrow> Inr (fi_next f, fi_route_type f, True)))"

fun send_from :: "netstack \<Rightarrow> (string \<times> Interface) list \<Rightarrow> string \<Rightarrow> Addr \<Rightarrow> Addr \<Rightarrow> int \<Rightarrow> bytes \<Rightarrow> effect list res" where
  "send_from ns [] iface dst next_addr protocolNum data = Inr []"
| "send_from ns ((k, intf) # rest) iface dst next_addr protocolNum data =
     (if ic_Name intf = iface then
        bindr (makePacket ns (ic_AssignedIP intf) dst protocolNum 16 data) (\<lambda>p.
        bindr (send_from ns rest iface dst next_addr protocolNum data) (\<lambda>es.
          Inr (ToInterface iface p next_addr # es)))
      else send_from ns rest iface dst next_addr protocolNum data)"

definition HandleSend :: "netstack \<Rightarrow> Node \<Rightarrow> Addr \<Rightarrow> bytes \<Rightarrow> int \<Rightarrow> effect list res" where
  "HandleSend ns node dst data protocolNum =
     bindr (FindNext node dst) (\<lambda>(next, t, found).
       if \<not> found then Inr [Print ''Error: No match in forwarding table.'']
       else
         let next_addr = (if t = ''L'' then dst else next)
         in if snd (neighborUDP node next_addr)
            then send_from ns (n_interfaces node) (nc_InterfaceName (getNeighbor node next_addr))
                   dst next_addr protocolNum data
            else Inr [Print ''Error: VIP is not valid dest''])"

definition RegisterHandler :: "Node \<Rightarrow> int \<Rightarrow> HandlerFunc \<Rightarrow> Node" where
  "RegisterHandler node protocolNum callback =
     node\<lparr>n_handlerTable := AList.update protocolNum callback (n_handlerTable node)\<rparr>"

section \<open>Interfaces\<close>

text \<open>
  \<open>interfaceRoutine\<close> works on its own copy of the interface: it allocates the mutex there,
  and its sender forwards a queued message when that copy is enabled.
\<close>

definition interfaceRoutine_start :: "Interface \<Rightarrow> Interface" where
  "interfaceRoutine_start iface = iface\<lparr>if_enableMutex := Some ()\<rparr>"

definition interfaceRoutine_send :: "Node \<Rightarrow> Interface \<Rightarrow> bytes \<Rightarrow> Addr \<Rightarrow> effect list" where
  "interfaceRoutine_send node iface pack address =
     (if if_enabled iface then forwardPacket node address pack else [])"

text \<open>
  \<open>ToggleInterface\<close> locks the mutex of the copy in the map; \<open>enabled\<close> is then set in a
  local copy that is dropped, so the node does not change.
\<close>

definition ToggleInterface :: "Node \<Rightarrow> string \<Rightarrow> bool \<Rightarrow> (string + Node) res" where
  "ToggleInterface node name b =
     (case map_of (n_interfaces node) name of
        None \<Rightarrow> Inr (Inl (name @ '' not a valid interface''))
      | Some iface \<Rightarrow>
          (case if_enableMutex iface of
             None \<Rightarrow> Inl NilPanic
           | Some m \<Rightarrow> Inr (Inr node)))"

section \<open>Handlers for test packets and TCP\<close>

definition string_of_bytes :: "bytes \<Rightarrow> string" where
  "string_of_bytes b = map (\<lambda>w. char_of (unat w)) b"

definition show_int :: "int \<Rightarrow> string" where
  "show_int i = (if i < 0 then CHR ''-'' # show_nat (nat (- i)) else show_nat (nat i))"

definition protocol0 :: "bytes \<Rightarrow> IPv4Header \<Rightarrow> effect list" where
  "protocol0 message hdr =
     [Print (''Received test packet:  Src: '' @ addr_String (h_Src hdr) @ '', Dst: '' @ addr_String (h_Dst hdr)
        @ '', TTL: '' @ show_int (h_TTL hdr) @ '', Data: '' @ string_of_bytes message)]"

definition protocol6 :: "netstack \<Rightarrow> Node \<Rightarrow> u8 slice \<Rightarrow> IPv4Header \<Rightarrow> effect list res" where
  "protocol6 ns node message hdr =
     bindr (ParseTCPHeader ns (vis message)) (\<lambda>tcpHdr.
     bindr (slice_from message (unat (tf_DataOffset tcpHdr))) (\<lambda>tcpPayload.
       if ComputeTCPChecksum ns (tcpHdr\<lparr>tf_Checksum := 0\<rparr>) (h_Src hdr) (h_Dst hdr) (vis tcpPayload)
            \<noteq> tf_Checksum tcpHdr
       then Inr []
       else bindr (slice_from message 20) (\<lambda>payload.
         Inr [ToTCP \<lparr>ti_key = \<lparr>sk_LocalAddr = h_Src hdr, sk_LocalPort = tf_SrcPort tcpHdr,
                               sk_RemoteAddr = n_IpAddr node, sk_RemotePort = tf_DstPort tcpHdr\<rparr>,
                     ti_Flag = tf_Flags tcpHdr, ti_SeqNum = tf_SeqNum tcpHdr, ti_AckNum = tf_AckNum tcpHdr,
                     ti_WindowSize = tf_WindowSize tcpHdr, ti_Payload = vis payload\<rparr>])))"

end
