(* ===== verification/Forwarding.thy ===== *)
theory Forwarding
  imports Node
begin

text \<open>
  The forwarding decision of \<open>pkg/node/node.go\<close>: \<open>checkDest\<close> and \<open>FindNext\<close> run the same
  loop, over the interfaces and over the forwarding table; the locale states what such a loop
  computes, the longest matching prefix, and both loops are instances of it. The results
  do not depend on the order in which \<open>range\<close> visits the maps.
\<close>

section \<open>Longest-prefix loops\<close>

lemma Contains_Bits: "Contains p a \<Longrightarrow> 0 \<le> pfx_Bits p"
  by (cases "(p, a)" rule: Contains.cases) auto

locale longest_match =
  fixes pre :: "'a \<Rightarrow> Prefix"
    and inj :: "'a \<Rightarrow> 'acc"
    and loop :: "('k \<times> 'a) list \<Rightarrow> Addr \<Rightarrow> 'acc \<Rightarrow> int \<Rightarrow> 'acc \<times> int"
  assumes loop_Nil: "loop [] dst acc len = (acc, len)"
    and loop_Cons: "loop ((k, x) # rest) dst acc len =
      (if Contains (pre x) dst \<and> len < pfx_Bits (pre x)
       then loop rest dst (inj x) (pfx_Bits (pre x)) else loop rest dst acc len)"
begin

definition best :: "('k \<times> 'a) list \<Rightarrow> Addr \<Rightarrow> 'a \<Rightarrow> bool" where
  "best xs dst x \<longleftrightarrow> x \<in> snd ` set xs \<and> Contains (pre x) dst \<and>
     (\<forall>y \<in> snd ` set xs. Contains (pre y) dst \<longrightarrow> pfx_Bits (pre y) \<le> pfx_Bits (pre x))"

lemma loop_cases:
  "(\<forall>y \<in> snd ` set xs. Contains (pre y) dst \<longrightarrow> pfx_Bits (pre y) \<le> len) \<and> loop xs dst acc len = (acc, len) \<or>
   (\<exists>x. best xs dst x \<and> len < pfx_Bits (pre x) \<and> loop xs dst acc len = (inj x, pfx_Bits (pre x)))"
proof (induction xs arbitrary: acc len)
  case (Cons p xs)
  obtain k x where p: "p = (k, x)" by (cases p)
  show ?case
  proof (cases "Contains (pre x) dst \<and> len < pfx_Bits (pre x)")
    case True
    then have l: "loop (p # xs) dst acc len = loop xs dst (inj x) (pfx_Bits (pre x))"
      by (simp add: p loop_Cons)
    from Cons [of "pfx_Bits (pre x)" "inj x"] show ?thesis
    proof
      assume "(\<forall>y \<in> snd ` set xs. Contains (pre y) dst \<longrightarrow> pfx_Bits (pre y) \<le> pfx_Bits (pre x)) \<and>
        loop xs dst (inj x) (pfx_Bits (pre x)) = (inj x, pfx_Bits (pre x))"
      then have "best (p # xs) dst x \<and> loop (p # xs) dst acc len = (inj x, pfx_Bits (pre x))"
        using True unfolding l by (simp add: p best_def)
      with True show ?thesis by blast
    next
      assume "\<exists>z. best xs dst z \<and> pfx_Bits (pre x) < pfx_Bits (pre z) \<and>
        loop xs dst (inj x) (pfx_Bits (pre x)) = (inj z, pfx_Bits (pre z))"
      then obtain z where z: "best xs dst z" "pfx_Bits (pre x) < pfx_Bits (pre z)"
          "loop (p # xs) dst acc len = (inj z, pfx_Bits (pre z))"
        unfolding l by blast
      then have "best (p # xs) dst z" by (simp add: best_def p)
      moreover have "len < pfx_Bits (pre z)" using True z(2) by simp
      ultimately show ?thesis using z(3) by blast
    qed
  next
    case False
    then have l: "loop (p # xs) dst acc len = loop xs dst acc len"
      unfolding p loop_Cons by (rule if_not_P)
    have "best (p # xs) dst z" if "best xs dst z" "len < pfx_Bits (pre z)" for z
      using that False by (auto simp: best_def p)
    moreover have "Contains (pre x) dst \<longrightarrow> pfx_Bits (pre x) \<le> len" using False by auto
    then have "(\<forall>y \<in> snd ` set (p # xs). Contains (pre y) dst \<longrightarrow> pfx_Bits (pre y) \<le> len) \<longleftrightarrow>
        (\<forall>y \<in> snd ` set xs. Contains (pre y) dst \<longrightarrow> pfx_Bits (pre y) \<le> len)"
      by (simp add: p)
    ultimately show ?thesis
      using Cons [of len acc] unfolding l by blast
  qed
qed (simp add: loop_Nil)

lemma result:
  "(\<forall>y \<in> snd ` set xs. \<not> Contains (pre y) dst) \<and> loop xs dst acc (-1) = (acc, -1) \<or>
   (\<exists>x. best xs dst x \<and> 0 \<le> pfx_Bits (pre x) \<and> loop xs dst acc (-1) = (inj x, pfx_Bits (pre x)))"
  using loop_cases [of xs dst "-1" acc]
proof
  assume a: "(\<forall>y \<in> snd ` set xs. Contains (pre y) dst \<longrightarrow> pfx_Bits (pre y) \<le> -1) \<and>
    loop xs dst acc (-1) = (acc, -1)"
  then have "\<not> Contains (pre y) dst" if "y \<in> snd ` set xs" for y
    using Contains_Bits [of "pre y" dst] that by fastforce
  with a show ?thesis by blast
next
  assume "\<exists>x. best xs dst x \<and> -1 < pfx_Bits (pre x) \<and> loop xs dst acc (-1) = (inj x, pfx_Bits (pre x))"
  then obtain x where "best xs dst x" "loop xs dst acc (-1) = (inj x, pfx_Bits (pre x))" "0 \<le> pfx_Bits (pre x)"
    by auto
  then show ?thesis by blast
qed

lemma best_same_length: "best xs dst x \<Longrightarrow> best xs dst y \<Longrightarrow> pfx_Bits (pre x) = pfx_Bits (pre y)"
  unfolding best_def by (blast intro: antisym)

lemma best_in: "best xs dst x \<Longrightarrow> x \<in> snd ` set xs"
  by (simp only: best_def)

lemma best_Contains: "best xs dst x \<Longrightarrow> Contains (pre x) dst"
  by (simp only: best_def)

lemma best_set_cong: "set xs = set ys \<Longrightarrow> best xs dst x \<longleftrightarrow> best ys dst x"
  by (simp only: best_def)

end

interpretation ifaces: longest_match ic_AssignedPrefix id checkDest_loop
  by unfold_locales simp_all

interpretation routes: longest_match fi_pre Some FindNext_loop
  by unfold_locales simp_all

section \<open>Masked prefixes and their networks\<close>

lemma xor_eq_0: "a XOR b = 0 \<longleftrightarrow> a = (b :: 'a::len word)"
  by (auto simp: bit_eq_iff bit_simps)

lemma masked_inj:
  assumes "push_bit k (drop_bit k x) = x" "push_bit k (drop_bit k y) = y" "drop_bit k x = drop_bit k y"
  shows "x = (y :: 'a::len word)"
proof -
  have "x = push_bit k (drop_bit k y)" by (rule assms(1) [symmetric, unfolded assms(3)])
  also have "\<dots> = y" by (rule assms(2))
  finally show ?thesis .
qed

lemma Contains_masked_unique:
  assumes "Contains p a" "Contains q a" "pfx_Bits p = pfx_Bits q" "Masked p = p" "Masked q = q"
  shows "p = q"
  using assms(1)
proof (cases rule: Contains.elims(2))
  case (1 x n w)
  from assms(2) obtain y m where q: "q = Prefix (Addr4 y) m"
    by (cases rule: Contains.elims(2)) (simp_all add: 1)
  from assms 1 q have n: "0 \<le> n" "m = n" and d: "drop_bit (32 - nat n) x = drop_bit (32 - nat n) y"
    by (simp_all add: drop_bit_xor xor_eq_0)
  from n assms(4,5) 1 q have m: "push_bit (32 - nat n) (drop_bit (32 - nat n) x) = x"
      "push_bit (32 - nat n) (drop_bit (32 - nat n) y) = y"
    by simp_all
  from masked_inj [OF m d] n 1 q show ?thesis by (simp only:)
next
  case (2 x u n w v)
  from assms(2) obtain y z m where q: "q = Prefix (Addr6 y z) m"
    by (cases rule: Contains.elims(2)) (simp_all add: 2)
  from assms 2 q have n: "0 \<le> n" "m = n" and d: "drop_bit (128 - nat n) x = drop_bit (128 - nat n) y"
    by (simp_all add: drop_bit_xor xor_eq_0)
  from n assms(4,5) 2 q have m: "push_bit (128 - nat n) (drop_bit (128 - nat n) x) = x"
      "push_bit (128 - nat n) (drop_bit (128 - nat n) y) = y" "u = []" "z = []"
    by simp_all
  from masked_inj [OF m(1,2) d] m(3-) n 2 q show ?thesis by (simp only:)
qed

section \<open>The local address check\<close>

text \<open>
  The subnets of a node are apart when no address lies in the prefixes of two interfaces;
  then an address is local exactly when some interface has it.
\<close>

definition subnets_apart :: "Node \<Rightarrow> bool" where
  "subnets_apart node \<longleftrightarrow>
     (\<forall>i \<in> snd ` set (n_interfaces node). \<forall>j \<in> snd ` set (n_interfaces node). \<forall>a.
        Contains (ic_AssignedPrefix i) a \<and> Contains (ic_AssignedPrefix j) a \<longrightarrow> i = j)"

definition own_subnets :: "Node \<Rightarrow> bool" where
  "own_subnets node \<longleftrightarrow>
     (\<forall>i \<in> snd ` set (n_interfaces node). Contains (ic_AssignedPrefix i) (ic_AssignedIP i))"

lemma checkDest_cases:
  "(\<forall>i \<in> snd ` set (n_interfaces node). \<not> Contains (ic_AssignedPrefix i) dst) \<and> \<not> checkDest node dst \<or>
   (\<exists>i. ifaces.best (n_interfaces node) dst i \<and> (checkDest node dst \<longleftrightarrow> dst = ic_AssignedIP i))"
  using ifaces.result [of "n_interfaces node" dst zeroInterface]
proof
  assume "\<exists>i. ifaces.best (n_interfaces node) dst i \<and> 0 \<le> pfx_Bits (ic_AssignedPrefix i) \<and>
    checkDest_loop (n_interfaces node) dst zeroInterface (-1) = (id i, pfx_Bits (ic_AssignedPrefix i))"
  then obtain i where "ifaces.best (n_interfaces node) dst i" "0 \<le> pfx_Bits (ic_AssignedPrefix i)"
    "checkDest_loop (n_interfaces node) dst zeroInterface (-1) = (i, pfx_Bits (ic_AssignedPrefix i))" by auto
  then have "ifaces.best (n_interfaces node) dst i \<and> (checkDest node dst \<longleftrightarrow> dst = ic_AssignedIP i)"
    by (simp add: checkDest_def)
  then show ?thesis by blast
qed (simp add: checkDest_def)

lemma checkDest_unique:
  assumes "ifaces.best (n_interfaces node) dst i" "\<And>j. ifaces.best (n_interfaces node) dst j \<Longrightarrow> j = i"
  shows "checkDest node dst \<longleftrightarrow> dst = ic_AssignedIP i"
  using checkDest_cases [of node dst] ifaces.best_in [OF assms(1)] ifaces.best_Contains [OF assms(1)] assms(2)
  by blast

text \<open>
  C25. Local delivery: with one interface per subnet, \<open>checkDest\<close> accepts exactly the addresses
  assigned to the interfaces of the node.
\<close>

theorem checkDest_iff_assigned:
  assumes "subnets_apart node" "own_subnets node"
  shows "checkDest node dst \<longleftrightarrow> (\<exists>i \<in> snd ` set (n_interfaces node). ic_AssignedIP i = dst)"
proof
  assume "\<exists>i \<in> snd ` set (n_interfaces node). ic_AssignedIP i = dst"
  then obtain i where i: "i \<in> snd ` set (n_interfaces node)" and dst: "ic_AssignedIP i = dst" by blast
  from assms(2) i have "Contains (ic_AssignedPrefix i) (ic_AssignedIP i)"
    unfolding own_subnets_def by (rule bspec)
  then have c: "Contains (ic_AssignedPrefix i) dst" by (simp only: dst)
  have only: "i = j" if "j \<in> snd ` set (n_interfaces node)" "Contains (ic_AssignedPrefix j) dst" for j
    using assms(1) [unfolded subnets_apart_def, rule_format, OF i that(1) conjI [OF c that(2)]] .
  have "pfx_Bits (ic_AssignedPrefix j) \<le> pfx_Bits (ic_AssignedPrefix i)"
    if "j \<in> snd ` set (n_interfaces node)" "Contains (ic_AssignedPrefix j) dst" for j
    using only [OF that] by simp
  with i c have "ifaces.best (n_interfaces node) dst i" unfolding ifaces.best_def by blast
  moreover have "j = i" if "ifaces.best (n_interfaces node) dst j" for j
    by (rule only [OF ifaces.best_in [OF that] ifaces.best_Contains [OF that], symmetric])
  ultimately have "checkDest node dst \<longleftrightarrow> dst = ic_AssignedIP i" by (rule checkDest_unique)
  then show "checkDest node dst" by (simp only: dst)
next
  assume "checkDest node dst"
  with checkDest_cases [of node dst] obtain i where "ifaces.best (n_interfaces node) dst i" "dst = ic_AssignedIP i"
    by blast
  with ifaces.best_in show "\<exists>i \<in> snd ` set (n_interfaces node). ic_AssignedIP i = dst" by blast
qed

section \<open>The next hop\<close>

lemma FindNext_route:
  assumes "\<not> checkDest node dst"
  shows "FindNext node dst = Inr (Addr4 0, ''hello'', False) \<and>
      (\<forall>f \<in> snd ` set (n_forwardingTable node). \<not> Contains (fi_pre f) dst) \<or>
    (\<exists>f. routes.best (n_forwardingTable node) dst f \<and> FindNext node dst = Inr (fi_next f, fi_route_type f, True))"
  using routes.result [of "n_forwardingTable node" dst None]
proof
  assume "\<exists>f. routes.best (n_forwardingTable node) dst f \<and> 0 \<le> pfx_Bits (fi_pre f) \<and>
    FindNext_loop (n_forwardingTable node) dst None (-1) = (Some f, pfx_Bits (fi_pre f))"
  then obtain f where "routes.best (n_forwardingTable node) dst f" "0 \<le> pfx_Bits (fi_pre f)"
    "FindNext_loop (n_forwardingTable node) dst None (-1) = (Some f, pfx_Bits (fi_pre f))" by blast
  then have "routes.best (n_forwardingTable node) dst f \<and> FindNext node dst = Inr (fi_next f, fi_route_type f, True)"
    using assms by (simp add: FindNext_def)
  then show ?thesis by blast
qed (simp add: FindNext_def assms)

text \<open>A router on 10.0.0.0/24 and 10.1.0.0/24 with a default route through 10.0.0.2.\<close>

definition ex_iface :: "string \<Rightarrow> u32 \<Rightarrow> u32 \<Rightarrow> Interface" where
  "ex_iface name ip pre = \<lparr>ic_Name = name, ic_AssignedIP = Addr4 ip, ic_AssignedPrefix = Prefix (Addr4 pre) 24,
     ic_UDPAddr = \<lparr>ap_Addr = Addr4 0x7f000001, ap_Port = 5000\<rparr>, if_enabled = True, if_enableMutex = None\<rparr>"

definition ex_route :: "string \<Rightarrow> u32 \<Rightarrow> int \<Rightarrow> u32 \<Rightarrow> Prefix \<times> ForwardingInfo" where
  "ex_route t pre bits hop = (Prefix (Addr4 pre) bits, \<lparr>fi_route_type = t, fi_next = Addr4 hop,
     fi_pre = Prefix (Addr4 pre) bits, fi_cost = 0, fi_last_updated = 0, fi_ifname = []\<rparr>)"

definition ex_router :: "(string \<times> Interface) list \<Rightarrow> (Prefix \<times> ForwardingInfo) list \<Rightarrow> Node" where
  "ex_router ifs tab = \<lparr>n_neighbors = [], n_interfaces = ifs, n_neighborTable = [], n_forwardingTable = tab,
     n_handlerTable = [], n_ripNeighbors = [], n_IpAddr = Addr4 0x0a000001\<rparr>"

definition ex_ifs :: "(string \<times> Interface) list" where
  "ex_ifs = [(''if0'', ex_iface ''if0'' 0x0a000001 0x0a000000), (''if1'', ex_iface ''if1'' 0x0a010001 0x0a010000)]"

definition ex_tab :: "(Prefix \<times> ForwardingInfo) list" where
  "ex_tab = [ex_route ''S'' 0 0 0x0a000002, ex_route ''L'' 0x0a000000 24 0x0a000001, ex_route ''L'' 0x0a010000 24 0x0a010001]"

lemmas ex_router_simps = ex_iface_def ex_route_def ex_router_def ex_ifs_def ex_tab_def

theorem checkDest_iff_assigned_witness:
  "checkDest (ex_router ex_ifs ex_tab) (Addr4 0x0a010001)"
proof -
  have "subnets_apart (ex_router ex_ifs ex_tab)"
    unfolding subnets_apart_def
    by (auto simp: ex_router_simps drop_bit_xor xor_eq_0 elim!: Contains.elims(2))
  moreover have "own_subnets (ex_router ex_ifs ex_tab)"
    by (simp add: own_subnets_def ex_router_simps)
  ultimately show ?thesis
    using checkDest_iff_assigned [of "ex_router ex_ifs ex_tab" "Addr4 0x0a010001"] by (simp add: ex_router_simps)
qed

text \<open>
  C6. \<open>FindNext\<close> never dereferences nil. For an address that is not the node's own it reports
  \<open>not found\<close> exactly when no route contains the address, and otherwise the next hop and the
  type of a route with the longest prefix of all routes that contain it.
\<close>

theorem FindNext_longest_prefix:
  assumes "\<not> checkDest node dst"
  shows "\<exists>next t found. FindNext node dst = Inr (next, t, found) \<and>
    (found \<longleftrightarrow> (\<exists>(p, f) \<in> set (n_forwardingTable node). Contains (fi_pre f) dst)) \<and>
    (found \<longrightarrow> (\<exists>(p, f) \<in> set (n_forwardingTable node). Contains (fi_pre f) dst \<and> next = fi_next f \<and>
       t = fi_route_type f \<and> (\<forall>(q, g) \<in> set (n_forwardingTable node).
         Contains (fi_pre g) dst \<longrightarrow> pfx_Bits (fi_pre g) \<le> pfx_Bits (fi_pre f))))"
  using FindNext_route [OF assms]
proof
  assume "\<exists>f. routes.best (n_forwardingTable node) dst f \<and> FindNext node dst = Inr (fi_next f, fi_route_type f, True)"
  then obtain f where f: "routes.best (n_forwardingTable node) dst f"
      "FindNext node dst = Inr (fi_next f, fi_route_type f, True)" by blast
  from f(1) obtain p where "(p, f) \<in> set (n_forwardingTable node)" "Contains (fi_pre f) dst"
      "\<forall>(q, g) \<in> set (n_forwardingTable node). Contains (fi_pre g) dst \<longrightarrow> pfx_Bits (fi_pre g) \<le> pfx_Bits (fi_pre f)"
    by (force simp: routes.best_def)
  with f(2) show ?thesis by auto
qed auto

theorem FindNext_longest_prefix_witness:
  "\<not> checkDest (ex_router ex_ifs ex_tab) (Addr4 0x0a010007) \<and>
   (\<exists>next t. FindNext (ex_router ex_ifs ex_tab) (Addr4 0x0a010007) = Inr (next, t, True))"
proof -
  have n: "\<not> checkDest (ex_router ex_ifs ex_tab) (Addr4 0x0a010007)"
    by (simp add: checkDest_def ex_router_simps)
  from FindNext_longest_prefix [OF n] obtain nh t found where
      "FindNext (ex_router ex_ifs ex_tab) (Addr4 0x0a010007) = Inr (nh, t, found)"
      "found \<longleftrightarrow> (\<exists>(p, f) \<in> set ex_tab. Contains (fi_pre f) (Addr4 0x0a010007))"
    by (auto simp: ex_router_def)
  moreover have "\<exists>(p, f) \<in> set ex_tab. Contains (fi_pre f) (Addr4 0x0a010007)"
    by (simp add: ex_router_simps)
  ultimately show ?thesis using n by simp
qed

section \<open>Independence of the iteration order\<close>

definition ifaces_ok :: "Node \<Rightarrow> bool" where
  "ifaces_ok node \<longleftrightarrow> inj_on ic_AssignedPrefix (snd ` set (n_interfaces node)) \<and>
     (\<forall>i \<in> snd ` set (n_interfaces node). Masked (ic_AssignedPrefix i) = ic_AssignedPrefix i)"

definition routes_ok :: "Node \<Rightarrow> bool" where
  "routes_ok node \<longleftrightarrow> distinct (map fst (n_forwardingTable node)) \<and>
     (\<forall>(p, f) \<in> set (n_forwardingTable node). fi_pre f = p \<and> Masked p = p)"

lemma best_iface_unique:
  assumes "ifaces_ok node" "ifaces.best (n_interfaces node) dst i" "ifaces.best (n_interfaces node) dst j"
  shows "i = j"
proof -
  have m: "Masked (ic_AssignedPrefix k) = ic_AssignedPrefix k" if "ifaces.best (n_interfaces node) dst k" for k
    using assms(1) ifaces.best_in [OF that] unfolding ifaces_ok_def by blast
  have "ic_AssignedPrefix i = ic_AssignedPrefix j"
    by (rule Contains_masked_unique [OF ifaces.best_Contains [OF assms(2)] ifaces.best_Contains [OF assms(3)]
          ifaces.best_same_length [OF assms(2,3)] m [OF assms(2)] m [OF assms(3)]])
  moreover have "inj_on ic_AssignedPrefix (snd ` set (n_interfaces node))"
    using assms(1) by (simp add: ifaces_ok_def)
  ultimately show ?thesis
    using ifaces.best_in [OF assms(2)] ifaces.best_in [OF assms(3)] by (auto dest: inj_onD)
qed

lemma best_route_unique:
  assumes "routes_ok node" "routes.best (n_forwardingTable node) dst f" "routes.best (n_forwardingTable node) dst g"
  shows "f = g"
proof -
  have m: "(fi_pre h, h) \<in> set (n_forwardingTable node) \<and> Masked (fi_pre h) = fi_pre h"
      if "routes.best (n_forwardingTable node) dst h" for h
    using assms(1) routes.best_in [OF that] by (auto simp: routes_ok_def)
  have "fi_pre f = fi_pre g"
    by (rule Contains_masked_unique [OF routes.best_Contains [OF assms(2)] routes.best_Contains [OF assms(3)]
          routes.best_same_length [OF assms(2,3)] conjunct2 [OF m [OF assms(2)]] conjunct2 [OF m [OF assms(3)]]])
  with m [OF assms(2)] m [OF assms(3)] have "(fi_pre g, f) \<in> set (n_forwardingTable node)"
      "(fi_pre g, g) \<in> set (n_forwardingTable node)" by simp_all
  moreover have "distinct (map fst (n_forwardingTable node))" using assms(1) by (simp add: routes_ok_def)
  ultimately show ?thesis by (blast intro: eq_key_imp_eq_value)
qed

lemma FindNext_best:
  assumes "\<not> checkDest node dst" "routes.best (n_forwardingTable node) dst f"
    and "\<And>g. routes.best (n_forwardingTable node) dst g \<Longrightarrow> g = f"
  shows "FindNext node dst = Inr (fi_next f, fi_route_type f, True)"
  using FindNext_route [OF assms(1)]
proof
  assume "FindNext node dst = Inr (Addr4 0, ''hello'', False) \<and>
    (\<forall>f \<in> snd ` set (n_forwardingTable node). \<not> Contains (fi_pre f) dst)"
  with routes.best_in [OF assms(2)] routes.best_Contains [OF assms(2)] show ?thesis by blast
next
  assume "\<exists>g. routes.best (n_forwardingTable node) dst g \<and> FindNext node dst = Inr (fi_next g, fi_route_type g, True)"
  then obtain g where g: "routes.best (n_forwardingTable node) dst g"
      "FindNext node dst = Inr (fi_next g, fi_route_type g, True)" by blast
  from g(2) show ?thesis unfolding assms(3) [OF g(1)] .
qed

lemma checkDest_perm:
  assumes "set (n_interfaces node') = set (n_interfaces node)" "ifaces_ok node"
  shows "checkDest node' dst \<longleftrightarrow> checkDest node dst"
proof -
  note best = ifaces.best_set_cong [OF assms(1), of dst]
  show ?thesis
  proof (cases "\<exists>i. ifaces.best (n_interfaces node) dst i")
    case True
    then obtain i where i: "ifaces.best (n_interfaces node) dst i" by blast
    have "checkDest node dst \<longleftrightarrow> dst = ic_AssignedIP i"
      using i best_iface_unique [OF assms(2) _ i] by (rule checkDest_unique)
    moreover have "checkDest node' dst \<longleftrightarrow> dst = ic_AssignedIP i"
      using i best_iface_unique [OF assms(2) _ i] unfolding best [symmetric] by (rule checkDest_unique)
    ultimately show ?thesis by simp
  next
    case False
    then show ?thesis using checkDest_cases [of node dst] checkDest_cases [of node' dst] best by blast
  qed
qed

text \<open>
  C26. The decision does not depend on the order in which Go visits its maps: two nodes whose
  interfaces and routes are the same up to order, with masked prefixes, one interface per
  prefix and routes stored under their own prefix, choose the same next hop for every address.
\<close>

theorem FindNext_order_independent:
  assumes "mset (n_forwardingTable node) = mset (n_forwardingTable node')"
    and "mset (n_interfaces node) = mset (n_interfaces node')"
    and "ifaces_ok node" "routes_ok node"
  shows "FindNext node' dst = FindNext node dst"
proof -
  have sets: "set (n_forwardingTable node') = set (n_forwardingTable node)"
      "set (n_interfaces node') = set (n_interfaces node)"
    using assms(1,2) by (metis mset_eq_setD)+
  note cd = checkDest_perm [OF sets(2) assms(3), of dst] and best = routes.best_set_cong [OF sets(1), of dst]
  show ?thesis
  proof (cases "checkDest node dst")
    case False
    with cd have n: "\<not> checkDest node dst" "\<not> checkDest node' dst" by simp_all
    show ?thesis
    proof (cases "\<exists>f. routes.best (n_forwardingTable node) dst f")
      case True
      then obtain f where f: "routes.best (n_forwardingTable node) dst f" by blast
      have "FindNext node dst = Inr (fi_next f, fi_route_type f, True)"
        using n(1) f best_route_unique [OF assms(4) _ f] by (rule FindNext_best)
      moreover have "FindNext node' dst = Inr (fi_next f, fi_route_type f, True)"
        using n(2) f best_route_unique [OF assms(4) _ f] unfolding best [symmetric] by (rule FindNext_best)
      ultimately show ?thesis by simp
    next
      case False
      with FindNext_route [OF n(1)] FindNext_route [OF n(2)] show ?thesis
        unfolding best by auto
    qed
  qed (simp add: FindNext_def cd)
qed

theorem FindNext_order_independent_witness:
  "FindNext (ex_router (rev ex_ifs) (rev ex_tab)) (Addr4 0x0a010007) =
     FindNext (ex_router ex_ifs ex_tab) (Addr4 0x0a010007)"
  by (rule FindNext_order_independent)
    (simp_all add: ifaces_ok_def routes_ok_def ex_router_simps)

end
