(* ===== verification/Node_Rip.thy ===== *)
theory Node_Rip
  imports Node
begin

text \<open>
  \<open>pkg/node/node.go\<close>, second part: distance-vector routing. \<open>sendRIP\<close> advertises routes
  with poisoned reverse, \<open>protocol200\<close> answers requests and merges updates into the
  forwarding table, the garbage collector drops routes that were not refreshed.

  The tables of the source hold pointers to \<open>ForwardingInfo\<close>. Every branch that changes
  such a structure also stores it in \<open>triggered\<close> under the same key, so that copies of the
  structures behave as the shared ones do within a handler.
\<close>

section \<open>Advertising\<close>

function popcount_loop :: "nat \<Rightarrow> nat \<Rightarrow> nat" where
  "popcount_loop num res = (if 0 < num then popcount_loop (num div 2) (res + num mod 2) else res)"
  by pat_completeness auto
termination
  by (relation "measure fst") auto

declare popcount_loop.simps [simp del]

definition popcount :: "u32 \<Rightarrow> nat" where
  "popcount num = popcount_loop (unat num) 0"

fun addr_int :: "bytes \<Rightarrow> u32" where
  "addr_int [a, b, c, d] = push_bit 24 (ucast a) + push_bit 16 (ucast b) + push_bit 8 (ucast c) + ucast d"
| "addr_int _ = 0"

definition ripEntry :: "Addr \<Rightarrow> Prefix \<Rightarrow> ForwardingInfo \<Rightarrow> RipUpdate res" where
  "ripEntry dst pre info =
     bindr (As4 (pfx_Addr pre)) (\<lambda>w.
     bindr (CIDRMask32 (pfx_Bits (fi_pre info))) (\<lambda>m.
       Inr \<lparr>ru_Cost = (if dst = fi_next info then word_of_int INFTY else word_of_int (fi_cost info)),
            ru_Address = addr_int (put32 w), ru_Mask = m\<rparr>))"

fun ripEntries :: "Addr \<Rightarrow> (Prefix \<times> ForwardingInfo) list \<Rightarrow> RipUpdate list res" where
  "ripEntries dst [] = Inr []"
| "ripEntries dst ((pre, info) # rest) =
     bindr (ripEntry dst pre info) (\<lambda>e. bindr (ripEntries dst rest) (\<lambda>es. Inr (e # es)))"

definition sendRIP :: "netstack \<Rightarrow> Node \<Rightarrow> Addr \<Rightarrow> (Prefix \<times> ForwardingInfo) list \<Rightarrow> effect list res" where
  "sendRIP ns node dst routes =
     bindr (ripEntries dst routes) (\<lambda>entries.
       let marshalled = MarshalRIP \<lparr>rp_Command = 2, rp_Num_entries = of_nat (length entries), rp_Entries = entries\<rparr>;
           name = nc_InterfaceName (getNeighbor node dst);
           src = ic_AssignedIP (getInterface node name)
       in bindr (makePacket ns src dst 200 16 marshalled) (\<lambda>packet. Inr [ToInterface name packet dst]))"

fun sendRIP_all :: "netstack \<Rightarrow> Node \<Rightarrow> Addr list \<Rightarrow> (Prefix \<times> ForwardingInfo) list \<Rightarrow> effect list res" where
  "sendRIP_all ns node [] routes = Inr []"
| "sendRIP_all ns node (a # as) routes =
     bindr (sendRIP ns node a routes) (\<lambda>es. bindr (sendRIP_all ns node as routes) (\<lambda>fs. Inr (es @ fs)))"

section \<open>Merging an update\<close>

text \<open>The prefix of an entry is printed and parsed again; a failed parse skips the entry.\<close>

definition entryPrefix :: "RipUpdate \<Rightarrow> Prefix option" where
  "entryPrefix entry =
     (let msk = popcount (ru_Mask entry);
          addy = uint (ru_Address entry AND ru_Mask entry)
      in ParsePrefix (dotted (nat (drop_bit 24 addy AND 0xFF)) (nat (drop_bit 16 addy AND 0xFF))
           (nat (drop_bit 8 addy AND 0xFF)) (nat (addy AND 0xFF)) @ ''/'' @ show_nat msk))"

definition entryCost :: "RipUpdate \<Rightarrow> int" where
  "entryCost entry = min (uint (ru_Cost entry + 1)) INFTY"

type_synonym table = "(Prefix \<times> ForwardingInfo) list"

definition mergeEntry :: "int \<Rightarrow> Addr \<Rightarrow> RipUpdate \<Rightarrow> table \<times> table \<Rightarrow> table \<times> table" where
  "mergeEntry now hop entry = (\<lambda>(tab, triggered).
     case entryPrefix entry of
       None \<Rightarrow> (tab, triggered)
     | Some pre \<Rightarrow>
         let cost = entryCost entry
         in case map_of tab pre of
              None \<Rightarrow>
                if cost \<noteq> INFTY then
                  let val = \<lparr>fi_route_type = ''R'', fi_next = hop, fi_pre = pre, fi_cost = cost,
                             fi_last_updated = now, fi_ifname = []\<rparr>
                  in (AList.update pre val tab, AList.update pre val triggered)
                else (tab, triggered)
            | Some info \<Rightarrow>
                if cost < fi_cost info then
                  let info' = info\<lparr>fi_cost := cost, fi_next := hop, fi_last_updated := now\<rparr>
                  in (AList.update pre info' tab, AList.update pre info' triggered)
                else if fi_cost info < cost then
                  if hop = fi_next info then
                    let info' = info\<lparr>fi_cost := cost, fi_last_updated := now\<rparr>
                    in (AList.delete pre tab, AList.update pre info' triggered)
                  else (tab, triggered)
                else if hop = fi_next info then
                  let info' = info\<lparr>fi_last_updated := now\<rparr>
                  in (AList.update pre info' tab, AList.update pre info' triggered)
                else (tab, triggered))"

definition mergeEntries :: "int \<Rightarrow> Addr \<Rightarrow> RipUpdate list \<Rightarrow> table \<Rightarrow> table \<times> table" where
  "mergeEntries now hop entries tab = fold (mergeEntry now hop) entries (tab, [])"

definition protocol200 :: "netstack \<Rightarrow> int \<Rightarrow> Node \<Rightarrow> u8 slice \<Rightarrow> IPv4Header \<Rightarrow> (Node \<times> effect list) res" where
  "protocol200 ns now node message hdr =
     bindr (ExtractRIP message) (\<lambda>rip_packet.
       if rp_Command rip_packet = 1 then
         bindr (sendRIP ns node (h_Src hdr) (n_forwardingTable node)) (\<lambda>es. Inr (node, es))
       else
         let (tab, triggered) = mergeEntries now (h_Src hdr) (rp_Entries rip_packet) (n_forwardingTable node);
             node' = node\<lparr>n_forwardingTable := tab\<rparr>
         in if 0 < length triggered then
              bindr (sendRIP_all ns node' (n_ripNeighbors node') triggered) (\<lambda>es. Inr (node', es))
            else Inr (node', []))"

section \<open>Periodic work\<close>

definition periodicUpdates_tick :: "netstack \<Rightarrow> Node \<Rightarrow> effect list res" where
  "periodicUpdates_tick ns node = sendRIP_all ns node (n_ripNeighbors node) (n_forwardingTable node)"

definition expired :: "int \<Rightarrow> ForwardingInfo \<Rightarrow> bool" where
  "expired currTime info \<longleftrightarrow> fi_route_type info = ''R'' \<and> 12 * 10 ^ 9 \<le> currTime - fi_last_updated info"

definition expired_routes :: "int \<Rightarrow> table \<Rightarrow> table" where
  "expired_routes currTime tab =
     map (\<lambda>(pre, info). (pre, info\<lparr>fi_cost := 16\<rparr>)) (filter (\<lambda>(pre, info). expired currTime info) tab)"

definition garbageCollector_tick :: "netstack \<Rightarrow> int \<Rightarrow> Node \<Rightarrow> (Node \<times> effect list) res" where
  "garbageCollector_tick ns currTime node =
     (let triggered = expired_routes currTime (n_forwardingTable node);
          node' = node\<lparr>n_forwardingTable := filter (\<lambda>(pre, info). \<not> expired currTime info) (n_forwardingTable node)\<rparr>
      in if 0 < length triggered then
           bindr (sendRIP_all ns node' (n_ripNeighbors node') triggered) (\<lambda>es. Inr (node', es))
         else Inr (node', []))"

section \<open>The prefix of an entry\<close>

lemma popcount_loop_add: "popcount_loop n r = popcount_loop n 0 + r"
proof (induction n arbitrary: r rule: less_induct)
  case (less n)
  show ?case
  proof (cases "n = 0")
    case False
    then have "n div 2 < n" by auto
    from less.IH [OF this, of "r + n mod 2"] less.IH [OF this, of "n mod 2"] False show ?thesis
      by (simp add: popcount_loop.simps [of n])
  qed (simp add: popcount_loop.simps)
qed

lemma popcount_loop_bound: "n < 2 ^ k \<Longrightarrow> popcount_loop n 0 \<le> k"
proof (induction k arbitrary: n)
  case (Suc k)
  show ?case
  proof (cases "n = 0")
    case False
    from Suc have "popcount_loop (n div 2) 0 \<le> k" by auto
    moreover have "n mod 2 \<le> 1" by simp
    ultimately show ?thesis
      using False popcount_loop_add [of "n div 2" "n mod 2"] by (simp add: popcount_loop.simps [of n])
  qed (simp add: popcount_loop.simps)
qed (simp add: popcount_loop.simps)

lemma popcount_le_32: "popcount m \<le> 32"
  unfolding popcount_def using popcount_loop_bound [of "unat m" 32] unat_u32_less [of m] by simp

lemma byte_octet: "i < 4 \<Longrightarrow> nat (drop_bit (8 * (3 - i)) (uint (w :: u32)) AND 255) = octet w i"
proof -
  have "take_bit 32 (uint w) = uint w"
    using uint_lt2p [of w] by (intro take_bit_int_eq_self) simp_all
  then have "drop_bit k (uint w) AND 255 = uint (ucast (drop_bit k w) :: u8)" for k
    using take_bit_eq_mask [of 8 "drop_bit k (uint w)"]
    by (simp add: unsigned_ucast_eq mask_eq_exp_minus_1 unsigned_drop_bit_eq)
  then show ?thesis by (simp add: octet_def)
qed

lemma entryPrefix_eq:
  "entryPrefix e = Some (Prefix (Addr4 (ru_Address e AND ru_Mask e)) (int (popcount (ru_Mask e))))"
proof -
  let ?w = "ru_Address e AND ru_Mask e"
  have "nat (drop_bit 24 (uint ?w) AND 255) = octet ?w 0" "nat (drop_bit 16 (uint ?w) AND 255) = octet ?w 1"
    "nat (drop_bit 8 (uint ?w) AND 255) = octet ?w 2" "nat (uint ?w AND 255) = octet ?w 3"
    using byte_octet [of 0 ?w] byte_octet [of 1 ?w] byte_octet [of 2 ?w] byte_octet [of 3 ?w]
    by (simp_all del: uint_and)
  then show ?thesis
    unfolding entryPrefix_def Let_def
    by (simp only: ParsePrefix_dotted octet_less popcount_le_32 wire_simps)
qed

section \<open>Masked prefixes survive the exchange\<close>

definition masked4 :: "Prefix \<Rightarrow> bool" where
  "masked4 p \<longleftrightarrow> (case p of
     Prefix (Addr4 w) n \<Rightarrow> 0 \<le> n \<and> n \<le> 32 \<and> push_bit (32 - nat n) (drop_bit (32 - nat n) w) = w
   | _ \<Rightarrow> False)"

lemma popcount_loop_double: "popcount_loop (2 * m) 0 = popcount_loop m 0"
  by (cases "m = 0") (simp_all add: popcount_loop.simps [of "2 * m"])

lemma popcount_loop_shift: "popcount_loop (m * 2 ^ k) 0 = popcount_loop m 0"
  by (induction k) (simp_all add: popcount_loop_double mult.left_commute [of m 2])

lemma popcount_loop_ones: "popcount_loop (2 ^ n - 1) 0 = n"
proof (induction n)
  case (Suc n)
  have "(2 ^ Suc n - 1) div 2 = (2 ^ n - 1 :: nat)" "(2 ^ Suc n - 1) mod 2 = (1 :: nat)"
    by (simp_all add: mod2_eq_if even_diff_nat)
  then have "popcount_loop (2 ^ Suc n - 1) 0 = popcount_loop (2 ^ n - 1) 1"
    by (subst popcount_loop.simps) (use one_less_power [of "2 :: nat" "Suc n"] in simp)
  with Suc show ?case
    by (simp only: popcount_loop_add [of "2 ^ n - 1" 1])
qed (simp add: popcount_loop.simps)

lemma unat_mask_word: "n \<le> 32 \<Longrightarrow> unat (mask n :: u32) = mask n"
  by (auto simp: bit_eq_iff bit_simps)

lemma popcount_CIDR: "n \<le> 32 \<Longrightarrow> popcount (push_bit (32 - n) (mask n)) = n"
proof -
  assume n: "n \<le> 32"
  have "(2 ^ n - 1) * 2 ^ (32 - n) < (2 :: nat) ^ 32"
  proof -
    have "(2 ^ n - 1) * 2 ^ (32 - n) < 2 ^ n * (2 :: nat) ^ (32 - n)" by simp
    also have "\<dots> = 2 ^ 32" using n by (simp flip: power_add)
    finally show ?thesis .
  qed
  then have "unat (push_bit (32 - n) (mask n) :: u32) = (2 ^ n - 1) * 2 ^ (32 - n)"
    using n by (simp only: unsigned_push_bit_eq unat_mask_word)
      (simp add: mask_eq_exp_minus_1 push_bit_eq_mult take_bit_nat_eq_self)
  then show ?thesis
    by (simp only: popcount_def popcount_loop_shift popcount_loop_ones)
qed

lemma and_CIDR:
  assumes "push_bit (32 - n) (drop_bit (32 - n) w) = (w :: u32)" "n \<le> 32"
  shows "w AND push_bit (32 - n) (mask n) = w"
proof (rule bit_word_eqI)
  fix i
  assume i: "i < LENGTH(32)"
  have "bit w i \<Longrightarrow> 32 - n \<le> i"
    by (subst (asm) assms(1) [symmetric]) (simp add: bit_simps)
  with i assms(2) show "bit (w AND push_bit (32 - n) (mask n)) i = bit w i"
    by (auto simp: bit_simps)
qed

lemma addr_int_put32: "addr_int (put32 w) = w"
proof -
  have "push_bit 24 (ucast (ucast (drop_bit 24 w) :: u8)) + push_bit 16 (ucast (ucast (drop_bit 16 w) :: u8)) =
      push_bit 24 (ucast (ucast (drop_bit 24 w) :: u8)) OR push_bit 16 (ucast (ucast (drop_bit 16 w) :: u8) :: u32)"
    by (intro disjunctive_add) (auto simp: bit_simps)
  moreover have "\<dots> + push_bit 8 (ucast (ucast (drop_bit 8 w) :: u8)) =
      \<dots> OR push_bit 8 (ucast (ucast (drop_bit 8 w) :: u8))"
    by (intro disjunctive_add) (auto simp: bit_simps)
  moreover have "(push_bit 24 (ucast (ucast (drop_bit 24 w) :: u8)) OR push_bit 16 (ucast (ucast (drop_bit 16 w) :: u8))
        OR push_bit 8 (ucast (ucast (drop_bit 8 w) :: u8))) + ucast (ucast w :: u8) =
      (push_bit 24 (ucast (ucast (drop_bit 24 w) :: u8)) OR push_bit 16 (ucast (ucast (drop_bit 16 w) :: u8))
        OR push_bit 8 (ucast (ucast (drop_bit 8 w) :: u8))) OR ucast (ucast w :: u8)"
    by (intro disjunctive_add) (auto simp: bit_simps)
  ultimately have "addr_int (put32 w) = get32 (ucast (drop_bit 24 w)) (ucast (drop_bit 16 w)) (ucast (drop_bit 8 w)) (ucast w)"
    by (simp add: put32_def get32_def or.assoc or.commute or.left_commute)
  then show ?thesis by (simp add: wire_simps)
qed

lemma ripEntry_masked:
  assumes "masked4 p" "fi_pre info = p" "0 \<le> fi_cost info" "fi_cost info \<le> 16"
  shows "\<exists>e. ripEntry dst p info = Inr e \<and> entryPrefix e = Some p \<and>
    entryCost e = (if dst = fi_next info then 16 else min (fi_cost info + 1) 16)"
proof -
  obtain w n where p: "p = Prefix (Addr4 w) n" and n: "0 \<le> n" "n \<le> 32"
      and m: "push_bit (32 - nat n) (drop_bit (32 - nat n) w) = w"
    using assms(1) by (auto simp: masked4_def split: Prefix.splits Addr.splits)
  let ?e = "\<lparr>ru_Cost = (if dst = fi_next info then word_of_int INFTY else word_of_int (fi_cost info)),
     ru_Address = w, ru_Mask = push_bit (32 - nat n) (mask (nat n))\<rparr>"
  have "ripEntry dst p info = Inr ?e"
    using n assms(2) by (simp add: ripEntry_def p CIDRMask32_def addr_int_put32)
  moreover have "entryPrefix ?e = Some p"
    using n and_CIDR [OF m] popcount_CIDR [of "nat n"] by (simp add: entryPrefix_eq p)
  moreover have "uint (word_of_int c + 1 :: u32) = c + 1" if "0 \<le> c" "c \<le> 16" for c
  proof -
    have "word_of_int c + 1 = (word_of_int (c + 1) :: u32)" by simp
    moreover have "uint (word_of_int (c + 1) :: u32) = c + 1"
      using that by (simp only: unsigned_of_int) (simp add: take_bit_int_eq_self)
    ultimately show ?thesis by simp
  qed
  then have "entryCost ?e = (if dst = fi_next info then 16 else min (fi_cost info + 1) 16)"
    using assms(3,4) by (simp add: entryCost_def INFTY_def)
  ultimately show ?thesis by blast
qed

end
