(* ===== verification/Routing.thy ===== *)
theory Routing
  imports Node_Rip
begin

text \<open>
  The distance-vector behaviour of \<open>sendRIP\<close>, \<open>protocol200\<close> and the garbage collector: the
  forwarding table refines a map from prefixes to routes on which an announced entry acts by
  \<open>dv_step\<close>; from that follow the table invariant, the exchange between two neighbours with
  poisoned reverse, and what a collection leaves.
\<close>

section \<open>The forwarding table as a distance vector\<close>

text \<open>
  The distance-vector step for one destination: what the table holds for a prefix after a
  neighbour \<open>hop\<close> announced it at a distance that makes \<open>cost\<close> here.
\<close>

definition dv_step :: "int \<Rightarrow> Addr \<Rightarrow> Prefix \<Rightarrow> int \<Rightarrow> ForwardingInfo option \<Rightarrow> ForwardingInfo option" where
  "dv_step now hop pre cost old = (case old of
     None \<Rightarrow> if cost = INFTY then None
             else Some \<lparr>fi_route_type = ''R'', fi_next = hop, fi_pre = pre, fi_cost = cost,
                        fi_last_updated = now, fi_ifname = []\<rparr>
   | Some info \<Rightarrow>
       if cost < fi_cost info then Some (info\<lparr>fi_cost := cost, fi_next := hop, fi_last_updated := now\<rparr>)
       else if hop \<noteq> fi_next info then Some info
       else if cost = fi_cost info then Some (info\<lparr>fi_last_updated := now\<rparr>)
       else None)"

definition route_ok :: "Prefix \<Rightarrow> ForwardingInfo \<Rightarrow> bool" where
  "route_ok p info \<longleftrightarrow> fi_pre info = p \<and> 0 \<le> fi_cost info \<and> fi_cost info < INFTY"

definition table_ok :: "table \<Rightarrow> bool" where
  "table_ok tab \<longleftrightarrow> distinct (map fst tab) \<and> (\<forall>(p, info) \<in> set tab. route_ok p info)"

definition announceable :: "table \<Rightarrow> bool" where
  "announceable tab \<longleftrightarrow> distinct (map fst tab) \<and>
     (\<forall>(p, info) \<in> set tab. masked4 p \<and> fi_pre info = p \<and> 0 \<le> fi_cost info \<and> fi_cost info \<le> INFTY)"

definition at_prefix :: "Prefix \<Rightarrow> RipUpdate \<Rightarrow> bool" where
  "at_prefix p e \<longleftrightarrow> entryPrefix e = Some p"

lemma entryCost_bounds: "0 \<le> entryCost e" "entryCost e \<le> INFTY"
  by (simp_all add: entryCost_def INFTY_def)

lemma lookup_mergeEntry:
  "map_of (fst (mergeEntry now hop e (tab, trig))) p =
     (if at_prefix p e then dv_step now hop p (entryCost e) (map_of tab p) else map_of tab p)"
proof (cases "entryPrefix e")
  case (Some q)
  then show ?thesis
    by (cases "q = p"; cases "map_of tab q")
      (simp_all add: mergeEntry_def dv_step_def at_prefix_def update_conv' delete_conv' Let_def)
qed (simp add: mergeEntry_def at_prefix_def)

lemma lookup_fold_mergeEntry:
  "map_of (fst (fold (mergeEntry now hop) es s)) p =
     fold (\<lambda>e. dv_step now hop p (entryCost e)) (filter (at_prefix p) es) (map_of (fst s) p)"
proof (induction es arbitrary: s)
  case (Cons e es)
  obtain tab trig where s: "s = (tab, trig)" by (cases s)
  show ?case
    using lookup_mergeEntry [of now hop e tab trig p] by (simp add: Cons s)
qed simp

lemma dv_step_ok:
  assumes "dv_step now hop p c old = Some info" "\<And>i. old = Some i \<Longrightarrow> route_ok p i" "0 \<le> c" "c \<le> INFTY"
  shows "route_ok p info"
proof (cases old)
  case None
  with assms(1,3,4) show ?thesis
    by (auto simp: dv_step_def route_ok_def INFTY_def split: if_splits)
next
  case (Some i)
  with assms(2) have "route_ok p i" by simp
  with Some assms(1,3) show ?thesis
    by (auto simp: dv_step_def route_ok_def split: if_splits)
qed

lemma table_ok_map_of: "table_ok tab \<Longrightarrow> map_of tab p = Some info \<Longrightarrow> route_ok p info"
  by (auto simp: table_ok_def dest: map_of_SomeD)

lemma table_okI:
  "distinct (map fst tab) \<Longrightarrow> (\<And>p info. map_of tab p = Some info \<Longrightarrow> route_ok p info) \<Longrightarrow> table_ok tab"
  by (auto simp: table_ok_def)

lemma distinct_mergeEntry:
  "distinct (map fst tab) \<Longrightarrow> distinct (map fst (fst (mergeEntry now hop e (tab, trig))))"
  by (simp add: mergeEntry_def Let_def distinct_update distinct_delete split: option.split)

lemma mergeEntry_table_ok: "table_ok (fst s) \<Longrightarrow> table_ok (fst (mergeEntry now hop e s))"
proof -
  assume ok: "table_ok (fst s)"
  obtain tab trig where s: "s = (tab, trig)" by (cases s)
  with ok have "distinct (map fst tab)" by (simp add: table_ok_def)
  then show ?thesis
    using ok unfolding s
    by (intro table_okI distinct_mergeEntry)
      (auto simp: lookup_mergeEntry entryCost_bounds split: if_splits dest: table_ok_map_of intro: dv_step_ok)
qed

lemma mergeEntries_table_ok: "table_ok tab \<Longrightarrow> table_ok (fst (mergeEntries now hop es tab))"
proof -
  have "table_ok (fst s) \<Longrightarrow> table_ok (fst (fold (mergeEntry now hop) es s))" for s
    by (induction es arbitrary: s) (simp_all add: mergeEntry_table_ok)
  from this [of "(tab, [])"] show "table_ok tab \<Longrightarrow> ?thesis" by (simp add: mergeEntries_def)
qed

lemma lookup_mergeEntries:
  "map_of (fst (mergeEntries now hop es tab)) p =
     fold (\<lambda>e. dv_step now hop p (entryCost e)) (filter (at_prefix p) es) (map_of tab p)"
  by (simp add: mergeEntries_def lookup_fold_mergeEntry)

section \<open>What a neighbour learns from an announcement\<close>

definition announced :: "Addr \<Rightarrow> ForwardingInfo \<Rightarrow> int" where
  "announced dst info = (if dst = fi_next info then INFTY else min (fi_cost info + 1) INFTY)"

lemma ripEntries_masked:
  assumes "announceable tab"
  shows "\<exists>es. ripEntries dst tab = Inr es \<and> length es = length tab \<and>
    (\<forall>p. map entryCost (filter (at_prefix p) es) =
       (case map_of tab p of None \<Rightarrow> [] | Some info \<Rightarrow> [announced dst info]))"
  using assms
proof (induction tab)
  case (Cons r tab)
  obtain q info where r: "r = (q, info)" by (cases r)
  from Cons obtain es where es: "ripEntries dst tab = Inr es" "length es = length tab"
      "\<forall>p. map entryCost (filter (at_prefix p) es) =
         (case map_of tab p of None \<Rightarrow> [] | Some info \<Rightarrow> [announced dst info])"
    by (auto simp: announceable_def)
  from Cons.prems obtain e where e: "ripEntry dst q info = Inr e" "entryPrefix e = Some q"
      "entryCost e = announced dst info"
    using ripEntry_masked [of q info dst]
    by (auto simp: announceable_def r announced_def INFTY_def)
  from Cons.prems have "map_of tab q = None"
    by (simp add: announceable_def r map_of_eq_None_iff image_iff)
  moreover have "at_prefix p e \<longleftrightarrow> p = q" for p using e(2) by (auto simp: at_prefix_def)
  ultimately have "map entryCost (filter (at_prefix p) (e # es)) =
      (case map_of (r # tab) p of None \<Rightarrow> [] | Some info \<Rightarrow> [announced dst info])" for p
    using es(3) e(3) by (cases "p = q") (simp_all add: r)
  with es(1,2) e(1) show ?case by (simp add: r)
qed (simp add: announceable_def)

lemma lookup_after_announcement:
  assumes "announceable tabA" "ripEntries dst tabA = Inr es"
  shows "map_of (fst (mergeEntries now hop es tabB)) p =
    (case map_of tabA p of
       None \<Rightarrow> map_of tabB p
     | Some info \<Rightarrow> dv_step now hop p (announced dst info) (map_of tabB p))"
proof -
  have "fold (\<lambda>e. f (entryCost e)) xs = fold f (map entryCost xs)"
    for f :: "int \<Rightarrow> ForwardingInfo option \<Rightarrow> ForwardingInfo option" and xs
    by (induction xs) (simp_all add: fun_eq_iff)
  note fuse = this [of "dv_step now hop p" "filter (at_prefix p) es"]
  have "map entryCost (filter (at_prefix p) es) =
      (case map_of tabA p of None \<Rightarrow> [] | Some info \<Rightarrow> [announced dst info])"
    using ripEntries_masked [OF assms(1), of dst] assms(2) by auto
  then show ?thesis
    unfolding lookup_mergeEntries fuse by (simp split: option.split)
qed

lemma dv_step_unreachable:
  assumes "table_ok tab" "dv_step now hop p INFTY (map_of tab p) = Some info"
  shows "fi_next info \<noteq> hop"
  using assms by (auto simp: dv_step_def route_ok_def split: option.splits if_splits dest: table_ok_map_of)

text \<open>
  C5. Poisoned reverse. When a node announces its whole table to a neighbour, and that
  neighbour merges the announcement into a well-formed table, then the neighbour does not
  route any prefix through the announcing node (\<open>hop\<close>) that the announcing node itself routes
  through the neighbour (\<open>dst\<close>): the exchange leaves no loop of two nodes.
\<close>

theorem rip_no_two_node_loop:
  assumes "announceable tabA" "ripEntries dst tabA = Inr es" "table_ok tabB"
    and "map_of tabA p = Some infoA" "fi_next infoA = dst"
    and "map_of (fst (mergeEntries now hop es tabB)) p = Some infoB"
  shows "fi_next infoB \<noteq> hop"
proof -
  have "dv_step now hop p INFTY (map_of tabB p) = Some infoB"
    using lookup_after_announcement [OF assms(1,2), of now hop tabB p] assms(4-6)
    by (simp add: announced_def)
  then show ?thesis by (rule dv_step_unreachable [OF assms(3)])
qed

text \<open>
  C21. Reachability spreads. When the announcing node has a route of cost c below 15 that does
  not lead through the receiver, and the receiver has no cheaper route through the announcer
  already, then after the merge the receiver has a route to that prefix of cost at most c + 1.
\<close>

theorem rip_route_learned:
  assumes "announceable tabA" "ripEntries dst tabA = Inr es"
    and "map_of tabA p = Some infoA" "fi_next infoA \<noteq> dst" "fi_cost infoA + 1 < INFTY"
    and "\<And>i. map_of tabB p = Some i \<Longrightarrow> fi_next i = hop \<Longrightarrow> fi_cost infoA + 1 \<le> fi_cost i"
  shows "\<exists>infoB. map_of (fst (mergeEntries now hop es tabB)) p = Some infoB \<and> fi_cost infoB \<le> fi_cost infoA + 1"
proof -
  have "announced dst infoA = fi_cost infoA + 1"
    using assms(4,5) by (simp add: announced_def)
  then have "map_of (fst (mergeEntries now hop es tabB)) p =
      dv_step now hop p (fi_cost infoA + 1) (map_of tabB p)"
    using lookup_after_announcement [OF assms(1,2), of now hop tabB p] assms(3) by simp
  with assms(5,6) show ?thesis
    by (cases "map_of tabB p") (auto simp: dv_step_def INFTY_def)
qed

text \<open>
  Two neighbours, 10.0.0.1 and 10.0.0.2 on 10.0.0.0/24. The first has a local route to
  10.1.0.0/24 and one to 10.2.0.0/24 through the second, which routes it through 10.0.0.3.
\<close>

definition net :: "u32 \<Rightarrow> Prefix" where
  "net w = Prefix (Addr4 w) 24"

definition route :: "string \<Rightarrow> u32 \<Rightarrow> u32 \<Rightarrow> int \<Rightarrow> ForwardingInfo" where
  "route t w hop cost = \<lparr>fi_route_type = t, fi_next = Addr4 hop, fi_pre = net w, fi_cost = cost,
     fi_last_updated = 0, fi_ifname = []\<rparr>"

definition exampleA :: table where
  "exampleA = [(net 0x0a010000, route ''L'' 0x0a010000 0x0a010001 0),
               (net 0x0a020000, route ''R'' 0x0a020000 0x0a000002 1)]"

definition exampleA_entries :: "RipUpdate list" where
  "exampleA_entries = [\<lparr>ru_Cost = 0, ru_Address = 0x0a010000, ru_Mask = 0xffffff00\<rparr>,
                       \<lparr>ru_Cost = 16, ru_Address = 0x0a020000, ru_Mask = 0xffffff00\<rparr>]"

definition exampleB :: table where
  "exampleB = [(net 0x0a020000, route ''R'' 0x0a020000 0x0a000003 2)]"

lemmas example_simps = net_def route_def exampleA_def exampleA_entries_def exampleB_def

lemma exampleA_announceable: "announceable exampleA"
  by (simp add: announceable_def example_simps masked4_def INFTY_def)

lemma exampleA_entries: "ripEntries (Addr4 0x0a000002) exampleA = Inr exampleA_entries"
  by (simp add: example_simps ripEntry_def CIDRMask32_def addr_int_put32 INFTY_def mask_eq_exp_minus_1)

lemma exampleA_entry_simps:
  "entryPrefix \<lparr>ru_Cost = c, ru_Address = 0x0a010000, ru_Mask = 0xffffff00\<rparr> = Some (Prefix (Addr4 0x0a010000) 24)"
  "entryPrefix \<lparr>ru_Cost = c, ru_Address = 0x0a020000, ru_Mask = 0xffffff00\<rparr> = Some (Prefix (Addr4 0x0a020000) 24)"
  using popcount_CIDR [of 24] by (simp_all add: entryPrefix_eq mask_eq_exp_minus_1)

lemma exampleB_after:
  "map_of (fst (mergeEntries 5 (Addr4 0x0a000001) exampleA_entries exampleB)) (net 0x0a020000) =
     Some (route ''R'' 0x0a020000 0x0a000003 2)"
  by (simp add: lookup_mergeEntries at_prefix_def example_simps exampleA_entry_simps entryCost_def dv_step_def INFTY_def)

theorem rip_no_two_node_loop_witness:
  "\<exists>i. map_of (fst (mergeEntries 5 (Addr4 0x0a000001) exampleA_entries exampleB)) (net 0x0a020000) = Some i \<and>
     fi_next i \<noteq> Addr4 0x0a000001"
  using exampleB_after
    rip_no_two_node_loop [OF exampleA_announceable exampleA_entries _ _ _ exampleB_after,
      where infoA = "route ''R'' 0x0a020000 0x0a000002 1"]
  by (simp add: table_ok_def route_ok_def example_simps INFTY_def)

theorem rip_route_learned_witness:
  "\<exists>infoB. map_of (fst (mergeEntries 5 (Addr4 0x0a000001) exampleA_entries exampleB)) (net 0x0a010000) = Some infoB
     \<and> fi_cost infoB \<le> fi_cost (route ''L'' 0x0a010000 0x0a010001 0) + 1"
  by (rule rip_route_learned [OF exampleA_announceable exampleA_entries])
    (simp_all add: example_simps INFTY_def)

section \<open>What one update may change\<close>

lemma filter_distinct_key:
  "distinct (map f xs) \<Longrightarrow> x \<in> set xs \<Longrightarrow> filter (\<lambda>y. f y = f x) xs = [x]"
  by (induction xs) (auto simp: filter_empty_conv image_iff)

lemma filter_at_prefix:
  "distinct (map entryPrefix es) \<Longrightarrow> e \<in> set es \<Longrightarrow> at_prefix p e \<Longrightarrow> filter (at_prefix p) es = [e]"
  using filter_distinct_key [of entryPrefix es e] by (simp add: at_prefix_def [abs_def])

lemma lookup_one_entry:
  assumes "distinct (map entryPrefix es)" "e \<in> set es" "at_prefix p e"
  shows "map_of (fst (mergeEntries now hop es tab)) p = dv_step now hop p (entryCost e) (map_of tab p)"
  by (simp add: lookup_mergeEntries filter_at_prefix [OF assms])

lemma lookup_no_entry:
  assumes "\<And>e. e \<in> set es \<Longrightarrow> \<not> at_prefix p e"
  shows "map_of (fst (mergeEntries now hop es tab)) p = map_of tab p"
proof -
  have "filter (at_prefix p) es = []" using assms by (simp add: filter_empty_conv)
  then show ?thesis by (simp add: lookup_mergeEntries)
qed

text \<open>
  A node never loses or worsens a route on hearsay: an update with at most one entry per
  prefix, sent by a neighbour that is not the next hop of a route, keeps that route as it is
  or replaces it by a strictly cheaper one through the sender.
\<close>

theorem rip_update_keeps_routes:
  assumes "distinct (map entryPrefix es)" "map_of tab p = Some i" "fi_next i \<noteq> hop"
  shows "\<exists>i'. map_of (fst (mergeEntries now hop es tab)) p = Some i' \<and>
    (i' = i \<or> fi_next i' = hop \<and> fi_cost i' < fi_cost i \<and> fi_last_updated i' = now)"
proof (cases "\<exists>e \<in> set es. at_prefix p e")
  case True
  then obtain e where "e \<in> set es" "at_prefix p e" by blast
  with assms show ?thesis by (auto simp: lookup_one_entry dv_step_def)
next
  case False
  with assms(2) show ?thesis by (simp add: lookup_no_entry)
qed

theorem rip_update_keeps_routes_witness:
  "\<exists>i'. map_of (fst (mergeEntries 5 (Addr4 0x0a000001) exampleA_entries exampleB)) (net 0x0a020000) = Some i' \<and>
    (i' = route ''R'' 0x0a020000 0x0a000003 2 \<or>
     fi_next i' = Addr4 0x0a000001 \<and> fi_cost i' < fi_cost (route ''R'' 0x0a020000 0x0a000003 2) \<and> fi_last_updated i' = 5)"
  by (rule rip_update_keeps_routes) (simp_all add: example_simps exampleA_entry_simps)

text \<open>
  C22. Withdrawal. A route whose next hop is the sender disappears exactly when the update
  holds an entry for its prefix that makes it dearer, also when the new cost is finite; an
  update of the next hop that is as good as the route refreshes its time stamp.
\<close>

theorem rip_route_withdrawn_iff:
  assumes "distinct (map entryPrefix es)" "map_of tab p = Some i" "fi_next i = hop"
  shows "(map_of (fst (mergeEntries now hop es tab)) p = None \<longleftrightarrow>
      (\<exists>e \<in> set es. entryPrefix e = Some p \<and> fi_cost i < entryCost e)) \<and>
    (\<forall>e \<in> set es. entryPrefix e = Some p \<and> entryCost e \<le> fi_cost i \<longrightarrow>
      map_of (fst (mergeEntries now hop es tab)) p = Some (i\<lparr>fi_cost := entryCost e, fi_last_updated := now\<rparr>))"
proof (cases "\<exists>e \<in> set es. at_prefix p e")
  case True
  then obtain e where e: "e \<in> set es" "at_prefix p e" by blast
  then have only: "x = e" if "x \<in> set es" "entryPrefix x = Some p" for x
    using filter_at_prefix [OF assms(1) e] filter_at_prefix [OF assms(1), of x p] that
    by (simp add: at_prefix_def)
  have "i\<lparr>fi_cost := fi_cost i, fi_last_updated := now\<rparr> = i\<lparr>fi_last_updated := now\<rparr>" by simp
  with e assms show ?thesis
    by (auto simp: lookup_one_entry dv_step_def at_prefix_def dest: only)
next
  case False
  with assms(2) show ?thesis by (auto simp: lookup_no_entry at_prefix_def)
qed

text \<open>A neighbour announces a route it is the next hop of at cost 5 after cost 2: the route is gone.\<close>

theorem rip_route_withdrawn_iff_witness:
  "map_of (fst (mergeEntries 5 (Addr4 0x0a000003)
     [\<lparr>ru_Cost = 5, ru_Address = 0x0a020000, ru_Mask = 0xffffff00\<rparr>] exampleB)) (net 0x0a020000) = None"
  using rip_route_withdrawn_iff [of "[\<lparr>ru_Cost = 5, ru_Address = 0x0a020000, ru_Mask = 0xffffff00\<rparr>]" exampleB
      "net 0x0a020000" "route ''R'' 0x0a020000 0x0a000003 2" "Addr4 0x0a000003" 5]
  by (simp add: example_simps exampleA_entry_simps entryCost_def INFTY_def)

section \<open>The table invariant and the garbage collector\<close>

lemma protocol200_table:
  assumes "protocol200 ns now node message hdr = Inr (node', es)"
  shows "n_forwardingTable node' = n_forwardingTable node \<or>
    (\<exists>entries. n_forwardingTable node' = fst (mergeEntries now (h_Src hdr) entries (n_forwardingTable node)))"
  using assms
  by (auto simp: protocol200_def bindr_eq_Inr Let_def split: if_splits prod.splits)
    (metis fst_conv)+

lemma garbageCollector_table:
  assumes "garbageCollector_tick ns now node = Inr (node', es)"
  shows "n_forwardingTable node' = filter (\<lambda>(pre, info). \<not> expired now info) (n_forwardingTable node)"
  using assms by (auto simp: garbageCollector_tick_def bindr_eq_Inr Let_def split: if_splits)

lemma table_ok_filter: "table_ok tab \<Longrightarrow> table_ok (filter P tab)"
  by (auto simp: table_ok_def distinct_map_filter)

lemma map_of_filter_distinct:
  "distinct (map fst tab) \<Longrightarrow> map_of (filter (\<lambda>(p, i). P i) tab) p =
     (case map_of tab p of None \<Rightarrow> None | Some i \<Rightarrow> if P i then Some i else None)"
  by (induction tab) (auto split: option.splits simp: map_of_eq_None_iff image_iff)

text \<open>
  C23. The table invariant: whatever message arrives and from whomever, and whenever the
  collector runs, the forwarding table keeps one entry per prefix, stored under the prefix it
  carries, with a cost from 0 to 15.
\<close>

theorem rip_table_invariant:
  assumes "table_ok (n_forwardingTable node)"
    and "protocol200 ns now node message hdr = Inr (node', es) \<or>
      garbageCollector_tick ns now node = Inr (node', es)"
  shows "table_ok (n_forwardingTable node')"
  using assms protocol200_table [of ns now node message hdr node' es]
    garbageCollector_table [of ns now node node' es]
  by (auto simp: mergeEntries_table_ok table_ok_filter)

definition example_node :: "table \<Rightarrow> Node" where
  "example_node tab = \<lparr>n_neighbors = [], n_interfaces = [], n_neighborTable = [], n_forwardingTable = tab,
     n_handlerTable = [], n_ripNeighbors = [], n_IpAddr = Addr4 0x0a000001\<rparr>"

lemma example_collection:
  "garbageCollector_tick ref_netstack 13000000000 (example_node exampleA) =
     Inr (example_node [(net 0x0a010000, route ''L'' 0x0a010000 0x0a010001 0)], [])"
  by (simp add: garbageCollector_tick_def example_node_def expired_routes_def expired_def example_simps)

lemma exampleA_ok: "table_ok exampleA"
  by (simp add: table_ok_def route_ok_def example_simps INFTY_def)

theorem rip_table_invariant_witness:
  "table_ok (n_forwardingTable (example_node [(net 0x0a010000, route ''L'' 0x0a010000 0x0a010001 0)]))"
  by (rule rip_table_invariant [OF _ disjI2, OF _ example_collection])
    (simp add: example_node_def exampleA_ok)

text \<open>
  C24. A collection removes exactly the learned routes that were not refreshed for twelve
  seconds, and keeps every local, static and fresh route unchanged.
\<close>

theorem garbage_collection:
  assumes "table_ok (n_forwardingTable node)" "garbageCollector_tick ns now node = Inr (node', es)"
    and "map_of (n_forwardingTable node) p = Some i"
  shows "map_of (n_forwardingTable node') p =
    (if fi_route_type i = ''R'' \<and> 12000000000 \<le> now - fi_last_updated i then None else Some i)"
proof -
  have "distinct (map fst (n_forwardingTable node))" using assms(1) by (simp add: table_ok_def)
  then show ?thesis
    unfolding garbageCollector_table [OF assms(2)]
    using map_of_filter_distinct [of "n_forwardingTable node" "\<lambda>i. \<not> expired now i" p] assms(3)
    by (simp add: expired_def)
qed

theorem garbage_collection_witness:
  "map_of (n_forwardingTable (example_node [(net 0x0a010000, route ''L'' 0x0a010000 0x0a010001 0)])) (net 0x0a020000) = None"
  using garbage_collection [OF _ example_collection, of "net 0x0a020000" "route ''R'' 0x0a020000 0x0a000002 1"]
  by (simp add: example_node_def exampleA_ok) (simp add: example_simps)

lemma announceable_expired: "announceable tab \<Longrightarrow> announceable (expired_routes now tab)"
  by (auto simp: announceable_def expired_routes_def INFTY_def distinct_map_filter comp_def case_prod_beta)

lemma lookup_expired:
  "distinct (map fst tab) \<Longrightarrow> map_of tab p = Some i \<Longrightarrow> expired now i \<Longrightarrow>
     map_of (expired_routes now tab) p = Some (i\<lparr>fi_cost := 16\<rparr>)"
  by (induction tab) (auto simp: expired_routes_def dest: map_of_SomeD)

text \<open>
  Expiry propagates: a neighbour that merges what the collector announces about the
  routes it removed no longer routes any of these prefixes through the announcing node.
\<close>

theorem garbage_collection_propagates:
  assumes "announceable tab" "map_of tab p = Some i" "expired now i"
    and "ripEntries dst (expired_routes now tab) = Inr es" "table_ok tabB"
    and "map_of (fst (mergeEntries t hop es tabB)) p = Some infoB"
  shows "fi_next infoB \<noteq> hop"
proof -
  have "map_of (expired_routes now tab) p = Some (i\<lparr>fi_cost := 16\<rparr>)"
    using assms(1-3) by (intro lookup_expired) (simp_all add: announceable_def)
  then have "dv_step t hop p INFTY (map_of tabB p) = Some infoB"
    using lookup_after_announcement [OF announceable_expired [OF assms(1)] assms(4), of t hop tabB p] assms(6)
    by (simp add: announced_def INFTY_def)
  then show ?thesis by (rule dv_step_unreachable [OF assms(5)])
qed

definition exampleA_expired :: "RipUpdate list" where
  "exampleA_expired = [\<lparr>ru_Cost = 16, ru_Address = 0x0a020000, ru_Mask = 0xffffff00\<rparr>]"

lemma exampleA_expired:
  "ripEntries (Addr4 0x0a000009) (expired_routes 13000000000 exampleA) = Inr exampleA_expired"
  by (simp add: expired_routes_def expired_def exampleA_expired_def example_simps ripEntry_def CIDRMask32_def
      addr_int_put32 INFTY_def mask_eq_exp_minus_1)

lemma exampleB_after_expiry:
  "map_of (fst (mergeEntries 5 (Addr4 0x0a000001) exampleA_expired exampleB)) (net 0x0a020000) =
     Some (route ''R'' 0x0a020000 0x0a000003 2)"
  by (simp add: lookup_mergeEntries at_prefix_def example_simps exampleA_expired_def exampleA_entry_simps
      entryCost_def dv_step_def INFTY_def)

theorem garbage_collection_propagates_witness:
  "\<exists>i. map_of (fst (mergeEntries 5 (Addr4 0x0a000001) exampleA_expired exampleB)) (net 0x0a020000) = Some i \<and>
     fi_next i \<noteq> Addr4 0x0a000001"
  using exampleB_after_expiry
    garbage_collection_propagates [OF exampleA_announceable _ _ exampleA_expired _ exampleB_after_expiry,
      where i = "route ''R'' 0x0a020000 0x0a000002 1"]
  by (simp add: expired_def table_ok_def route_ok_def example_simps INFTY_def)

end
