(* ===== verification/Node_Run.thy ===== *)
theory Node_Run
  imports Forwarding Routing
begin

text \<open>
  \<open>pkg/node/node.go\<close>, third part: receiving datagrams, starting a node, and the listings of
  the REPL.
\<close>

section \<open>Receiving\<close>

fun hdr_error_String :: "hdr_error \<Rightarrow> string" where
  "hdr_error_String errNilHeader = ''nil header''"
| "hdr_error_String errHeaderTooShort = ''header too short''"
| "hdr_error_String errExtHeaderTooShort = ''extension header too short''"
| "hdr_error_String errMissingAddress = ''missing address''"

text \<open>Calling a handler; the entry of a missing protocol number is a nil function.\<close>

definition callHandler ::
  "netstack \<Rightarrow> int \<Rightarrow> Node \<Rightarrow> HandlerFunc option \<Rightarrow> u8 slice \<Rightarrow> IPv4Header \<Rightarrow> (Node \<times> effect list) res" where
  "callHandler ns now node handler message hdr =
     (case handler of
        None \<Rightarrow> Inl NilPanic
      | Some Protocol0 \<Rightarrow> Inr (node, protocol0 (vis message) hdr)
      | Some Protocol6 \<Rightarrow> bindr (protocol6 ns node message hdr) (\<lambda>es. Inr (node, es))
      | Some Protocol200 \<Rightarrow> protocol200 ns now node message hdr
      | Some (Callback k) \<Rightarrow> Inr (node, [CallHandler k (vis message) hdr]))"

definition forwardOn :: "netstack \<Rightarrow> Node \<Rightarrow> IPv4Header \<Rightarrow> bytes \<Rightarrow> effect list res" where
  "forwardOn ns node hdr data =
     bindr (FindNext node (h_Dst hdr)) (\<lambda>(next, t, found).
       if \<not> found then Inr [Print ''Error: No match in forwarding table.'']
       else
         let next_addr = (if t = ''L'' then h_Dst hdr else next)
         in bindr (makePacket ns (h_Src hdr) (h_Dst hdr) (h_Protocol hdr) (h_TTL hdr) data) (\<lambda>p.
              Inr (forwardPacket node next_addr p)))"

definition handlePackets :: "netstack \<Rightarrow> int \<Rightarrow> Node \<Rightarrow> u8 slice \<Rightarrow> (Node \<times> effect list) res" where
  "handlePackets ns now node buffer =
     (case ParseHeader (Some (vis buffer)) of
        Inl err \<Rightarrow> Inr (node, [Print (''Error parsing header '' @ hdr_error_String err)])
      | Inr h \<Rightarrow>
          let hdr = h\<lparr>h_TTL := h_TTL h - 1\<rparr>; headerSize = nat (h_Len hdr) in
          if h_TTL hdr < 0 then Inr (node, [])
          else bindr (slice_to buffer headerSize) (\<lambda>headerBytes.
            let checksumFromHeader = word_of_int (h_Checksum hdr);
                computedChecksum = ValidateChecksum ns (vis headerBytes) checksumFromHeader;
                hdr' = hdr\<lparr>h_Checksum := uint computedChecksum\<rparr>
            in if computedChecksum = checksumFromHeader then
                 bindr (slice_from buffer headerSize) (\<lambda>message.
                   if checkDest node (h_Dst hdr') then
                     callHandler ns now node (map_of (n_handlerTable node) (h_Protocol hdr')) message hdr'
                   else if 0 < h_TTL hdr' then
                     bindr (forwardOn ns node hdr' (vis message)) (\<lambda>es. Inr (node, es))
                   else Inr (node, []))
               else Inr (node, [Print ''Dropped packet'']))) "

text \<open>
  One turn of the read loop of \<open>interfaceRoutine\<close>: a datagram is read into a fresh buffer of
  \<open>MaxMessageSize\<close> bytes; a disabled interface lets it go.
\<close>

definition interfaceRoutine_recv ::
  "netstack \<Rightarrow> int \<Rightarrow> Node \<Rightarrow> Interface \<Rightarrow> bytes \<Rightarrow> (Node \<times> effect list) res" where
  "interfaceRoutine_recv ns now node iface datagram =
     (if if_enabled iface then
        handlePackets ns now node
          \<lparr>vis = take MaxMessageSize datagram, spare = replicate (MaxMessageSize - length datagram) 0\<rparr>
      else Inr (node, []))"

section \<open>Starting a node\<close>

definition addStatic :: "table \<Rightarrow> Prefix \<times> Addr \<Rightarrow> table" where
  "addStatic tab = (\<lambda>(pre, addr). AList.update pre
     \<lparr>fi_route_type = ''S'', fi_next = addr, fi_pre = pre, fi_cost = 0, fi_last_updated = 0, fi_ifname = []\<rparr> tab)"

definition addLocal :: "table \<Rightarrow> InterfaceConfig \<Rightarrow> table" where
  "addLocal tab i = AList.update (ic_AssignedPrefix i)
     \<lparr>fi_route_type = ''L'', fi_next = ic_AssignedIP i, fi_pre = ic_AssignedPrefix i, fi_cost = 0,
      fi_last_updated = 0, fi_ifname = ic_Name i\<rparr> tab"

definition newInterface :: "InterfaceConfig \<Rightarrow> Interface" where
  "newInterface i = \<lparr>ic_Name = ic_Name i, ic_AssignedIP = ic_AssignedIP i, ic_AssignedPrefix = ic_AssignedPrefix i,
     ic_UDPAddr = ic_UDPAddr i, if_enabled = True, if_enableMutex = None\<rparr>"

fun sendRequests :: "netstack \<Rightarrow> Node \<Rightarrow> Addr list \<Rightarrow> (Node \<times> effect list) res" where
  "sendRequests ns node [] = Inr (node, [])"
| "sendRequests ns node (a # as) =
     (let node' = node\<lparr>n_ripNeighbors := n_ripNeighbors node @ [a]\<rparr>;
          iface = nc_InterfaceName (getNeighbor node' a);
          marshalled = MarshalRIP \<lparr>rp_Command = 1, rp_Num_entries = 0, rp_Entries = []\<rparr>
      in bindr (makePacket ns (ic_AssignedIP (getInterface node' iface)) a 200 16 marshalled) (\<lambda>packet.
         bindr (sendRequests ns node' as) (\<lambda>(node'', es). Inr (node'', ToInterface iface packet a # es))))"

definition startNode :: "IPConfig \<Rightarrow> Node" where
  "startNode cfg =
     \<lparr>n_neighbors = cfg_Neighbors cfg,
      n_interfaces = foldl (\<lambda>t i. AList.update (ic_Name i) (newInterface i) t) [] (cfg_Interfaces cfg),
      n_neighborTable = createNeighborTable (cfg_Neighbors cfg),
      n_forwardingTable = foldl addLocal (foldl addStatic [] (cfg_StaticRoutes cfg)) (cfg_Interfaces cfg),
      n_handlerTable = [], n_ripNeighbors = [], n_IpAddr = AddrZero\<rparr>"

definition Initialize :: "netstack \<Rightarrow> IPConfig \<Rightarrow> (Node \<times> effect list) res" where
  "Initialize ns cfg =
     bindr (sendRequests ns (startNode cfg) (cfg_RipNeighbors cfg)) (\<lambda>(node, es).
       Inr (node\<lparr>n_IpAddr := ic_AssignedIP (getInterface node ''if0''),
                 n_handlerTable := [(0, Protocol0), (6, Protocol6), (200, Protocol200)]\<rparr>, es))"

section \<open>Listings\<close>

definition padl :: "nat \<Rightarrow> string \<Rightarrow> string" where
  "padl n s = replicate (n - length s) (CHR '' '') @ s"

definition padr :: "nat \<Rightarrow> string \<Rightarrow> string" where
  "padr n s = s @ replicate (n - length s) (CHR '' '')"

definition addrPort_String :: "AddrPort \<Rightarrow> string" where
  "addrPort_String ap =
     (case ap_Addr ap of
        AddrZero \<Rightarrow> ''invalid AddrPort''
      | Addr4 w \<Rightarrow> addr_String (Addr4 w) @ '':'' @ show_nat (unat (ap_Port ap))
      | Addr6 w z \<Rightarrow> ''['' @ addr_String (Addr6 w z) @ '']:'' @ show_nat (unat (ap_Port ap)))"

definition PrintInterfaces :: "Node \<Rightarrow> string list" where
  "PrintInterfaces node = ''Name  Addr/Prefix State'' #
     map (\<lambda>(k, i). padl 4 (ic_Name i) @ ''  '' @ addr_String (ic_AssignedIP i) @ ''/''
        @ show_int (pfx_Bits (ic_AssignedPrefix i)) @ '' ''
        @ padl 4 (if if_enabled i then ''up'' else ''down'')) (n_interfaces node)"

definition PrintNeighbors :: "Node \<Rightarrow> string list" where
  "PrintNeighbors node = ''Iface          VIP          UDPAddr'' #
     map (\<lambda>n. padl 4 (nc_InterfaceName n) @ ''    '' @ padl 9 (addr_String (nc_DestAddr n)) @ ''  ''
        @ padl 15 (addrPort_String (nc_UDPAddr n))) (n_neighbors node)"

definition PrintRoutes :: "Node \<Rightarrow> string list" where
  "PrintRoutes node = ''T       Prefix   Next hop   Cost'' #
     map (\<lambda>(k, f).
        if fi_route_type f = ''L'' then
          fi_route_type f @ ''  '' @ padr 11 (prefix_String (fi_pre f)) @ ''  LOCAL:'' @ padr 5 (fi_ifname f) @ ''    0''
        else if fi_route_type f = ''R'' then
          fi_route_type f @ ''  '' @ padl 11 (prefix_String (fi_pre f)) @ '' '' @ padl 10 (addr_String (fi_next f))
            @ ''     '' @ padl 2 (show_int (fi_cost f))
        else
          fi_route_type f @ ''  '' @ padl 11 (prefix_String (fi_pre f)) @ '' '' @ padl 10 (addr_String (fi_next f))
            @ ''      -'') (n_forwardingTable node)"

end
