(* ===== verification/Node_Packets.thy ===== *)
theory Node_Packets
  imports Node_Run
begin

text \<open>
  The way of a packet from \<open>makePacket\<close> through \<open>handlePackets\<close>: which packets are accepted,
  what reaches a protocol handler, what is forwarded and that forwarding ends; and the way of
  a RIP announcement from \<open>sendRIP\<close> of one node into the table of the next.
\<close>

section \<open>The packets a node builds\<close>

definition header20 :: "u32 \<Rightarrow> u32 \<Rightarrow> int \<Rightarrow> int \<Rightarrow> nat \<Rightarrow> u16 \<Rightarrow> bytes" where
  "header20 s d proto ttl n ck =
     [0x45, 0] @ put16 (word_of_int (20 + int n)) @ put16 0 @ put16 0 @ [word_of_int ttl, word_of_int proto]
       @ put16 ck @ put32 s @ put32 d"

definition packet_checksum :: "netstack \<Rightarrow> u32 \<Rightarrow> u32 \<Rightarrow> int \<Rightarrow> int \<Rightarrow> nat \<Rightarrow> u16" where
  "packet_checksum ns s d proto ttl n = ComputeChecksum ns (header20 s d proto ttl n 0)"

lemma length_header20 [simp]: "length (header20 s d proto ttl n ck) = 20"
  by (simp add: header20_def)

lemma Marshal_makeHeader:
  "Marshal (Some (makeHeader (Addr4 s) (Addr4 d) proto ttl n)) = Inr (header20 s d proto ttl n 0)"
  "Marshal (Some (makeHeader (Addr4 s) (Addr4 d) proto ttl n\<lparr>h_Checksum := uint ck\<rparr>)) = Inr (header20 s d proto ttl n ck)"
  by (simp_all add: Marshal_bytes makeHeader_def header20_def HeaderLen_def drop_bit_eq_div)

lemma makePacket_eq:
  "makePacket ns (Addr4 s) (Addr4 d) proto ttl data =
     Inr (header20 s d proto ttl (length data) (packet_checksum ns s d proto ttl (length data)) @ data)"
  by (simp add: makePacket_def MustParseAddr_String Marshal_makeHeader packet_checksum_def Let_def del: addr_String.simps)

lemma sum16_put: "sum16 (put16 w @ r) = unat w + sum16 r"
proof -
  have "256 * unat (ucast (drop_bit 8 w) :: u8) + unat (ucast w :: u8) = unat w"
  proof -
    have "unat (ucast (drop_bit 8 w) :: u8) = unat w div 256"
      using unat_u16_less [of w]
      by (simp only: unsigned_ucast_eq unsigned_drop_bit_eq) (simp add: drop_bit_eq_div take_bit_nat_eq_self)
    moreover have "unat (ucast w :: u8) = unat w mod 256"
      by (simp add: unsigned_ucast_eq take_bit_eq_mod)
    ultimately show ?thesis by simp
  qed
  then show ?thesis by (simp add: put16_def)
qed

lemma sum16_header20:
  "sum16 (header20 s d proto ttl n ck) = sum16 (header20 s d proto ttl n 0) + unat ck"
  by (simp add: header20_def sum16_put sum16_append)

lemma sum16_header20_pos: "0 < sum16 (header20 s d proto ttl n ck)"
  by (simp add: header20_def)

text \<open>A built header validates exactly when its checksum field did not come out as zero.\<close>

lemma header20_validates:
  assumes "netstack_checksum ns" "ck = packet_checksum ns s d proto ttl n"
  shows "ValidateChecksum ns (header20 s d proto ttl n ck) ck = ck \<longleftrightarrow> ck \<noteq> 0"
proof -
  let ?h = "header20 s d proto ttl n 0"
  have "unat ck = 65535 - oc_fold (sum16 ?h)"
    using assms by (simp add: packet_checksum_def ComputeChecksum_def xor_ffff netstack_checksum_def unat_rfc1071)
  then have "65535 dvd sum16 (header20 s d proto ttl n ck)"
    using complement_sum [OF sum16_header20_pos] by (simp add: sum16_header20 [of _ _ _ _ _ ck])
  then show ?thesis
    using validate_iff [OF assms(1), of "header20 s d proto ttl n ck" ck] sum16_header20_pos
    by (simp add: ValidateChecksum_def)
qed

lemma ParseHeader_header20:
  assumes "0 \<le> proto" "proto < 256" "0 \<le> ttl" "ttl < 256" "20 + n < 65536"
  shows "ParseHeader (Some (header20 s d proto ttl n ck @ data)) =
    Inr (makeHeader (Addr4 s) (Addr4 d) proto ttl n\<lparr>h_Checksum := uint ck\<rparr>)"
proof (rule ParseHeader_Marshal)
  show "wf_header (makeHeader (Addr4 s) (Addr4 d) proto ttl n\<lparr>h_Checksum := uint ck\<rparr>)"
    using assms uint_u16_less [of ck] by (simp add: wf_header_def makeHeader_def HeaderLen_def)
qed (rule Marshal_makeHeader)

section \<open>From one node to the next\<close>

lemma handlePackets_header20:
  assumes "netstack_checksum ns" and "0 \<le> proto" "proto < 256" "1 \<le> ttl" "ttl < 256" "20 + length data < 65536"
    and ck: "ck = packet_checksum ns s d proto ttl (length data)" and "ck \<noteq> 0"
    and hdr: "hdr = makeHeader (Addr4 s) (Addr4 d) proto (ttl - 1) (length data)\<lparr>h_Checksum := uint ck\<rparr>"
  shows "handlePackets ns now node \<lparr>vis = header20 s d proto ttl (length data) ck @ data, spare = sp\<rparr> =
    (if checkDest node (Addr4 d)
     then callHandler ns now node (map_of (n_handlerTable node) proto) \<lparr>vis = data, spare = sp\<rparr> hdr
     else if 1 < ttl then bindr (forwardOn ns node hdr data) (\<lambda>es. Inr (node, es))
     else Inr (node, []))"
proof -
  have "ValidateChecksum ns (header20 s d proto ttl (length data) ck) ck = ck"
    using header20_validates [OF assms(1) ck] assms(8) by simp
  moreover have "nat (h_Len (makeHeader (Addr4 s) (Addr4 d) proto ttl (length data))) = 20"
    by (simp add: makeHeader_def)
  moreover have "h_Dst hdr = Addr4 d" "h_Protocol hdr = proto" "h_TTL hdr = ttl - 1"
    by (simp_all add: hdr makeHeader_def)
  moreover have "(makeHeader (Addr4 s) (Addr4 d) proto ttl (length data)\<lparr>h_Checksum := uint ck\<rparr>)\<lparr>h_TTL := ttl - 1\<rparr> = hdr"
    by (simp add: hdr makeHeader_def)
  ultimately show ?thesis
    using assms(2-6)
    by (simp add: handlePackets_def ParseHeader_header20 slice_to_def slice_range_def slice_from_def slice_cap_def
        slice_len_def Let_def) (auto simp: makeHeader_def hdr)
qed

text \<open>
  C7. End to end through IP: the packet that \<open>makePacket\<close> builds, unless its checksum comes
  out as zero, is accepted by every node it reaches with a positive time-to-live. The node it
  is addressed to hands exactly the payload, with the header's addresses and protocol, to the
  handler of the protocol; another node passes it on with the time-to-live decremented, or
  drops it when that is used up.
\<close>

theorem packet_delivered_or_forwarded:
  assumes "netstack_checksum ns" "0 \<le> proto" "proto < 256" "1 \<le> ttl" "ttl < 256" "20 + length data < 65536"
    and "makePacket ns (Addr4 s) (Addr4 d) proto ttl data = Inr pkt"
    and "packet_checksum ns s d proto ttl (length data) \<noteq> 0"
  shows "\<exists>hdr. h_Src hdr = Addr4 s \<and> h_Dst hdr = Addr4 d \<and> h_Protocol hdr = proto \<and> h_TTL hdr = ttl - 1 \<and>
    handlePackets ns now node \<lparr>vis = pkt, spare = sp\<rparr> =
      (if checkDest node (Addr4 d)
       then callHandler ns now node (map_of (n_handlerTable node) proto) \<lparr>vis = data, spare = sp\<rparr> hdr
       else if 1 < ttl then bindr (forwardOn ns node hdr data) (\<lambda>es. Inr (node, es))
       else Inr (node, []))"
proof -
  let ?ck = "packet_checksum ns s d proto ttl (length data)"
  let ?hdr = "makeHeader (Addr4 s) (Addr4 d) proto (ttl - 1) (length data)\<lparr>h_Checksum := uint ?ck\<rparr>"
  have "pkt = header20 s d proto ttl (length data) ?ck @ data"
    using assms(7) by (simp add: makePacket_eq)
  then show ?thesis
    using handlePackets_header20 [OF assms(1-6) refl assms(8) refl, of now node sp]
    by (intro exI [of _ ?hdr]) (simp add: makeHeader_def)
qed

lemmas checksum_eval = packet_checksum_def ComputeChecksum_def ref_netstack_def rfc1071_def header20_def put16_def
  put32_def oc_fold_def

lemma example_checksum: "packet_checksum ref_netstack 0x0a000002 0x0a010001 0 16 (Suc (Suc 0)) \<noteq> 0"
  by (simp add: checksum_eval)

theorem packet_delivered_or_forwarded_witness:
  "\<exists>pkt hdr. makePacket ref_netstack (Addr4 0x0a000002) (Addr4 0x0a010001) 0 16 [104, 105] = Inr pkt \<and>
     handlePackets ref_netstack 0 (ex_router ex_ifs ex_tab\<lparr>n_handlerTable := [(0, Protocol0)]\<rparr>) \<lparr>vis = pkt, spare = []\<rparr> =
       Inr (ex_router ex_ifs ex_tab\<lparr>n_handlerTable := [(0, Protocol0)]\<rparr>, protocol0 [104, 105] hdr)"
proof -
  let ?node = "ex_router ex_ifs ex_tab\<lparr>n_handlerTable := [(0, Protocol0)]\<rparr>"
  obtain pkt where pkt: "makePacket ref_netstack (Addr4 0x0a000002) (Addr4 0x0a010001) 0 16 [104, 105] = Inr pkt"
    by (simp add: makePacket_eq)
  have "checkDest ?node (Addr4 0x0a010001)" by (simp add: checkDest_def ex_router_simps)
  with packet_delivered_or_forwarded [OF ref_netstack_checksum _ _ _ _ _ pkt, of 0 ?node "[]"] example_checksum pkt
  show ?thesis by (auto simp: callHandler_def)
qed

text \<open>
  A packet whose checksum comes out as zero is dropped wherever it goes, its destination
  included: validation compares with the field as the start value, which zero never equals.
\<close>

theorem zero_checksum_dropped:
  assumes "netstack_checksum ns" "0 \<le> proto" "proto < 256" "1 \<le> ttl" "ttl < 256" "20 + length data < 65536"
    and "makePacket ns (Addr4 s) (Addr4 d) proto ttl data = Inr pkt"
    and "packet_checksum ns s d proto ttl (length data) = 0"
  shows "handlePackets ns now node \<lparr>vis = pkt, spare = sp\<rparr> = Inr (node, [Print ''Dropped packet''])"
proof -
  have "pkt = header20 s d proto ttl (length data) 0 @ data"
    using assms(7,8) by (simp add: makePacket_eq)
  moreover have "ValidateChecksum ns (header20 s d proto ttl (length data) 0) 0 \<noteq> 0"
    using header20_validates [OF assms(1) assms(8) [symmetric]] by simp
  moreover have "nat (h_Len (makeHeader (Addr4 s) (Addr4 d) proto ttl (length data))) = 20"
    "h_TTL (makeHeader (Addr4 s) (Addr4 d) proto ttl (length data)) = ttl"
    by (simp_all add: makeHeader_def)
  ultimately show ?thesis
    using assms(2-6) ParseHeader_header20 [of proto ttl "length data" s d 0 data]
    by (simp add: handlePackets_def slice_to_def slice_range_def slice_cap_def Let_def)
qed

theorem zero_checksum_dropped_witness:
  "\<exists>pkt. makePacket ref_netstack (Addr4 0x0a000001) (Addr4 0x0a0096ea) 0 16 [] = Inr pkt \<and>
     handlePackets ref_netstack 0 (ex_router ex_ifs ex_tab) \<lparr>vis = pkt, spare = []\<rparr> =
       Inr (ex_router ex_ifs ex_tab, [Print ''Dropped packet''])"
proof -
  obtain pkt where pkt: "makePacket ref_netstack (Addr4 0x0a000001) (Addr4 0x0a0096ea) 0 16 [] = Inr pkt"
    by (simp add: makePacket_eq)
  moreover have "packet_checksum ref_netstack 0x0a000001 0x0a0096ea 0 16 0 = 0"
    by (simp add: checksum_eval)
  ultimately show ?thesis
    using zero_checksum_dropped [OF ref_netstack_checksum _ _ _ _ _ pkt, of 0 "ex_router ex_ifs ex_tab" "[]"] by auto
qed

section \<open>Forwarding ends\<close>

definition no_udp :: "effect list \<Rightarrow> bool" where
  "no_udp es \<longleftrightarrow> (\<forall>p u. UDPWrite p u \<notin> set es)"

lemma sendRIP_no_udp: "sendRIP ns node dst routes = Inr es \<Longrightarrow> no_udp es"
  by (auto simp: sendRIP_def bindr_eq_Inr Let_def no_udp_def)

lemma sendRIP_all_no_udp: "sendRIP_all ns node as routes = Inr es \<Longrightarrow> no_udp es"
proof (induction as arbitrary: es)
  case (Cons a as)
  then obtain xs ys where "sendRIP ns node a routes = Inr xs" "sendRIP_all ns node as routes = Inr ys" "es = xs @ ys"
    by (auto simp: bindr_eq_Inr)
  with Cons.IH sendRIP_no_udp [of ns node a routes xs] show ?case by (auto simp: no_udp_def)
qed (simp add: no_udp_def)

lemma protocol200_no_udp: "protocol200 ns now node message hdr = Inr (node', es) \<Longrightarrow> no_udp es"
  by (auto simp: protocol200_def bindr_eq_Inr Let_def no_udp_def [of "[]"] split: if_splits prod.splits
      intro: sendRIP_no_udp sendRIP_all_no_udp)

lemma callHandler_no_udp:
  "callHandler ns now node h message hdr = Inr (node', es) \<Longrightarrow> no_udp es"
  by (auto simp: callHandler_def protocol0_def protocol6_def bindr_eq_Inr no_udp_def [of "_ # _"]
      no_udp_def [of "[]"] split: option.splits HandlerFunc.splits if_splits intro: protocol200_no_udp)

lemma ParseHeader_addrs:
  assumes "ParseHeader (Some b) = Inr h"
  shows "\<exists>s d. h_Src h = Addr4 s \<and> h_Dst h = Addr4 d"
    and "20 \<le> length b" "h_TTL h = uint (b ! 8)" "h_Protocol h = uint (b ! 9)"
    and "0 \<le> h_Len h" "nat (h_Len h) \<le> length b"
proof -
  show l: "20 \<le> length b"
    using assms by (auto simp: header_unfold split: if_splits)
  from list20 [OF l] obtain b0 b1 b2 b3 b4 b5 b6 b7 b8 b9 b10 b11 b12 b13 b14 b15 b16 b17 b18 b19 r
    where b: "b = [b0, b1, b2, b3, b4, b5, b6, b7, b8, b9, b10, b11, b12, b13, b14, b15, b16, b17, b18, b19] @ r"
    by (elim exE)
  note p = assms [unfolded b ParseHeader_bytes Let_def]
  show "\<exists>s d. h_Src h = Addr4 s \<and> h_Dst h = Addr4 d" "h_TTL h = uint (b ! 8)" "h_Protocol h = uint (b ! 9)"
    "0 \<le> h_Len h" "nat (h_Len h) \<le> length b"
    using p by (auto simp: b split: if_splits)
qed

lemma forwardPacket_udp: "UDPWrite p u \<in> set (forwardPacket node a q) \<Longrightarrow> p = q"
  by (cases "neighborUDP node a") (auto simp: forwardPacket_def Let_def split: if_splits)

lemma forwardOn_udp:
  "forwardOn ns node hdr data = Inr es \<Longrightarrow> UDPWrite p u \<in> set es \<Longrightarrow>
     makePacket ns (h_Src hdr) (h_Dst hdr) (h_Protocol hdr) (h_TTL hdr) data = Inr p"
  by (auto simp: forwardOn_def bindr_eq_Inr Let_def split: if_splits dest!: forwardPacket_udp)

lemma handlePackets_udp:
  assumes "handlePackets ns now node buffer = Inr (node', es)" "UDPWrite p u \<in> set es"
  shows "\<exists>h s d. ParseHeader (Some (vis buffer)) = Inr h \<and> h_Src h = Addr4 s \<and> h_Dst h = Addr4 d \<and>
    1 < h_TTL h \<and> \<not> checkDest node (h_Dst h) \<and>
    ValidateChecksum ns (take (nat (h_Len h)) (vis buffer)) (word_of_int (h_Checksum h)) = word_of_int (h_Checksum h) \<and>
    makePacket ns (Addr4 s) (Addr4 d) (h_Protocol h) (h_TTL h - 1) (drop (nat (h_Len h)) (vis buffer)) = Inr p"
proof (cases "ParseHeader (Some (vis buffer))")
  case (Inl e)
  with assms show ?thesis by (auto simp: handlePackets_def)
next
  case (Inr h)
  from ParseHeader_addrs(1) [OF Inr] obtain s d where sd: "h_Src h = Addr4 s" "h_Dst h = Addr4 d" by blast
  let ?data = "drop (nat (h_Len h)) (vis buffer)"
  show ?thesis
  proof (cases "checkDest node (h_Dst h)")
    case True
    with assms Inr have "no_udp es"
      by (auto simp: handlePackets_def Let_def bindr_eq_Inr no_udp_def [of "[]"] no_udp_def [of "_ # _"]
          split: if_splits intro: callHandler_no_udp)
    with assms(2) show ?thesis by (simp add: no_udp_def)
  next
    case False
    with assms Inr obtain ck where f: "forwardOn ns node (h\<lparr>h_TTL := h_TTL h - 1, h_Checksum := ck\<rparr>) ?data = Inr es"
        "1 < h_TTL h"
        "ValidateChecksum ns (take (nat (h_Len h)) (vis buffer)) (word_of_int (h_Checksum h)) = word_of_int (h_Checksum h)"
      using ParseHeader_addrs(5) [OF Inr]
      by (auto simp: handlePackets_def Let_def bindr_eq_Inr slice_from_def slice_to_def slice_range_def
          slice_len_def split: if_splits)
    with assms(2) have "makePacket ns (Addr4 s) (Addr4 d) (h_Protocol h) (h_TTL h - 1) ?data = Inr p"
      by (auto simp: sd dest: forwardOn_udp)
    with f(2,3) False sd Inr show ?thesis by blast
  qed
qed

text \<open>
  C27. Whatever datagram arrives: if it makes a node write a datagram itself, then its header
  parses, the code's validation accepts its checksum over the header length it claims, and its
  time-to-live is above one; the packet written has the source, destination, protocol and payload
  of the one received and its time-to-live minus one, and the node is not its destination.
\<close>

theorem forwarded_packet:
  assumes "handlePackets ns now node buffer = Inr (node', es)" "UDPWrite p u \<in> set es"
  shows "\<exists>h. ParseHeader (Some (vis buffer)) = Inr h \<and> \<not> checkDest node (h_Dst h) \<and> 1 < h_TTL h \<and>
    ValidateChecksum ns (take (nat (h_Len h)) (vis buffer)) (word_of_int (h_Checksum h)) = word_of_int (h_Checksum h) \<and>
    makePacket ns (h_Src h) (h_Dst h) (h_Protocol h) (h_TTL h - 1) (drop (nat (h_Len h)) (vis buffer)) = Inr p"
  using handlePackets_udp [OF assms] by (elim exE) auto

definition ex_gateway :: Node where
  "ex_gateway = ex_router ex_ifs ex_tab\<lparr>n_neighbors := [\<lparr>nc_DestAddr = Addr4 0x0a000002,
     nc_UDPAddr = \<lparr>ap_Addr = Addr4 0x7f000001, ap_Port = 5001\<rparr>, nc_InterfaceName = ''if0''\<rparr>]\<rparr>"

lemma ex_gateway_forwards:
  "\<exists>p. handlePackets ref_netstack 0 ex_gateway
     \<lparr>vis = header20 0x0a010005 0x08080808 0 16 0 (packet_checksum ref_netstack 0x0a010005 0x08080808 0 16 0), spare = []\<rparr> =
     Inr (ex_gateway, [UDPWrite p \<lparr>ap_Addr = Addr4 0x7f000001, ap_Port = 5001\<rparr>])"
proof -
  have ck: "packet_checksum ref_netstack 0x0a010005 0x08080808 0 16 0 \<noteq> 0" by (simp add: checksum_eval)
  have dest: "\<not> checkDest ex_gateway (Addr4 0x08080808)"
    by (simp add: checkDest_def ex_gateway_def ex_router_simps)
  moreover have "FindNext ex_gateway (Addr4 0x08080808) = Inr (Addr4 0x0a000002, ''S'', True)"
    using dest by (simp add: FindNext_def) (simp add: ex_gateway_def ex_router_simps)
  moreover have "forwardPacket ex_gateway (Addr4 0x0a000002) q = [UDPWrite q \<lparr>ap_Addr = Addr4 0x7f000001, ap_Port = 5001\<rparr>]" for q
    by (simp add: forwardPacket_def neighborUDP_def ex_gateway_def)
  ultimately show ?thesis
    using handlePackets_header20 [OF ref_netstack_checksum _ _ _ _ _ refl _ refl, where proto = 0 and ttl = 16
        and data = "[]" and s = "0x0a010005" and d = "0x08080808" and now = 0 and node = ex_gateway and sp = "[]"] ck
    by (simp add: forwardOn_def makeHeader_def makePacket_eq)
qed

theorem forwarded_packet_witness:
  "\<exists>p h. ParseHeader (Some (header20 0x0a010005 0x08080808 0 16 0
       (packet_checksum ref_netstack 0x0a010005 0x08080808 0 16 0))) = Inr h \<and> 1 < h_TTL h \<and>
     makePacket ref_netstack (h_Src h) (h_Dst h) (h_Protocol h) (h_TTL h - 1) (drop (nat (h_Len h))
       (header20 0x0a010005 0x08080808 0 16 0 (packet_checksum ref_netstack 0x0a010005 0x08080808 0 16 0))) = Inr p"
  using ex_gateway_forwards forwarded_packet [of ref_netstack 0 ex_gateway _ ex_gateway] by fastforce

text \<open>\<open>p'\<close> is a packet that some node, in some state, writes on receiving \<open>p\<close>.\<close>

definition forwards :: "netstack \<Rightarrow> bytes \<Rightarrow> bytes \<Rightarrow> bool" where
  "forwards ns p p' \<longleftrightarrow> (\<exists>now node node' es u sp.
     handlePackets ns now node \<lparr>vis = p, spare = sp\<rparr> = Inr (node', es) \<and> UDPWrite p' u \<in> set es)"

lemma forwards_ttl:
  assumes "forwards ns p p'"
  shows "unat (p' ! 8) < unat (p ! 8)"
proof -
  from assms obtain now node node' es u sp where
      "handlePackets ns now node \<lparr>vis = p, spare = sp\<rparr> = Inr (node', es)" "UDPWrite p' u \<in> set es"
    unfolding forwards_def by blast
  from handlePackets_udp [OF this] obtain h s d where h: "ParseHeader (Some p) = Inr h" "1 < h_TTL h"
      "makePacket ns (Addr4 s) (Addr4 d) (h_Protocol h) (h_TTL h - 1) (drop (nat (h_Len h)) p) = Inr p'"
    by auto
  have ttl: "h_TTL h = uint (p ! 8)" using ParseHeader_addrs(3) [OF h(1)] .
  have b: "uint (p ! 8) < 256" using uint_lt2p [of "p ! 8"] by simp
  from h(3) have "p' ! 8 = word_of_int (h_TTL h - 1)"
    by (auto simp: makePacket_eq header20_def put16_def)
  moreover have "uint (word_of_int (h_TTL h - 1) :: u8) = h_TTL h - 1"
    using h(2) b ttl by (intro uint_word_of_int_u8) simp_all
  ultimately have "uint (p' ! 8) = uint (p ! 8) - 1" using ttl by simp
  then have "uint (p' ! 8) < uint (p ! 8)" by simp
  then show ?thesis by (simp add: word_less_def word_less_nat_alt [symmetric])
qed

text \<open>
  C28. Forwarding ends: there is no infinite chain of nodes that pass a packet on, whatever
  their tables are and however these change in between.
\<close>

theorem forwarding_terminates: "wf {(p', p). forwards ns p p'}"
proof (rule wf_subset)
  show "{(p', p). forwards ns p p'} \<subseteq> measure (\<lambda>p. unat (p ! 8))"
    by (auto simp: forwards_ttl)
qed simp

section \<open>Announcements always go out\<close>

text \<open>
  Every RIP neighbour is an IPv4 address, and the interface towards it has one; a prefix of a
  RIP entry is always an IPv4 prefix. Then \<open>sendRIP\<close> returns.
\<close>

definition rip_ready :: "Node \<Rightarrow> bool" where
  "rip_ready node \<longleftrightarrow> (\<forall>a \<in> set (n_ripNeighbors node).
     Is4 a \<and> Is4 (ic_AssignedIP (getInterface node (nc_InterfaceName (getNeighbor node a)))))"

definition ipv4_prefix :: "Prefix \<Rightarrow> bool" where
  "ipv4_prefix p \<longleftrightarrow> Is4 (pfx_Addr p) \<and> 0 \<le> pfx_Bits p \<and> pfx_Bits p \<le> 32"

definition ipv4_table :: "table \<Rightarrow> bool" where
  "ipv4_table tab \<longleftrightarrow> (\<forall>(p, info) \<in> set tab. ipv4_prefix p \<and> fi_pre info = p)"

lemma Is4_cases: "Is4 a \<Longrightarrow> (\<And>w. a = Addr4 w \<Longrightarrow> P) \<Longrightarrow> P"
  by (cases a) auto

lemma ripEntries_defined: "ipv4_table tab \<Longrightarrow> \<exists>es. ripEntries dst tab = Inr es \<and> length es = length tab"
proof (induction tab)
  case (Cons r tab)
  obtain p info where r: "r = (p, info)" by (cases r)
  from Cons obtain es where "ripEntries dst tab = Inr es \<and> length es = length tab" by (auto simp: ipv4_table_def)
  with Cons.prems show ?case
    by (auto simp: r ipv4_table_def ipv4_prefix_def ripEntry_def CIDRMask32_def elim!: Is4_cases)
qed simp

lemma sendRIP_defined:
  assumes "Is4 a" "Is4 (ic_AssignedIP (getInterface node (nc_InterfaceName (getNeighbor node a))))" "ipv4_table tab"
  shows "\<exists>es. sendRIP ns node a tab = Inr es"
proof -
  from ripEntries_defined [OF assms(3)] obtain es where "ripEntries a tab = Inr es" by blast
  with assms(1,2) show ?thesis
    by (auto simp: sendRIP_def Let_def makePacket_eq elim!: Is4_cases)
qed

lemma sendRIP_all_defined:
  assumes "ipv4_table tab"
    and "\<And>a. a \<in> set as \<Longrightarrow> Is4 a \<and> Is4 (ic_AssignedIP (getInterface node (nc_InterfaceName (getNeighbor node a))))"
  shows "\<exists>es. sendRIP_all ns node as tab = Inr es"
  using assms(2)
proof (induction as)
  case (Cons a as)
  then obtain es where "sendRIP_all ns node as tab = Inr es" by auto
  moreover obtain xs where "sendRIP ns node a tab = Inr xs"
    using sendRIP_defined [OF _ _ assms(1), of a node ns] Cons.prems by auto
  ultimately show ?case by simp
qed simp

lemma entryPrefix_ipv4: "entryPrefix e = Some p \<Longrightarrow> ipv4_prefix p"
  using popcount_le_32 [of "ru_Mask e"] by (auto simp: entryPrefix_eq ipv4_prefix_def)

lemma ipv4_table_update:
  "ipv4_table tab \<Longrightarrow> ipv4_prefix p \<Longrightarrow> fi_pre i = p \<Longrightarrow> ipv4_table (AList.update p i tab)"
  by (auto simp: ipv4_table_def dest!: in_set_update)

lemma mergeEntry_triggered:
  assumes "table_ok tab" "ipv4_table trig"
  shows "ipv4_table (snd (mergeEntry now hop e (tab, trig)))"
proof (cases "entryPrefix e")
  case (Some p)
  have "fi_pre i = p" if "map_of tab p = Some i" for i
    using table_ok_map_of [OF assms(1) that] by (simp add: route_ok_def)
  with Some assms(2) entryPrefix_ipv4 [OF Some] show ?thesis
    by (cases "map_of tab p") (simp_all add: mergeEntry_def Let_def ipv4_table_update)
qed (simp add: mergeEntry_def assms(2))

lemma mergeEntries_triggered: "table_ok tab \<Longrightarrow> ipv4_table (snd (mergeEntries now hop es tab))"
proof -
  have "table_ok (fst s) \<Longrightarrow> ipv4_table (snd s) \<Longrightarrow> ipv4_table (snd (fold (mergeEntry now hop) es s))" for s
  proof (induction es arbitrary: s)
    case (Cons e es)
    from Cons.prems mergeEntry_triggered [of "fst s" "snd s" now hop e] mergeEntry_table_ok [of s now hop e]
    show ?case by (simp add: Cons.IH)
  qed simp
  from this [of "(tab, [])"] show "table_ok tab \<Longrightarrow> ?thesis" by (simp add: mergeEntries_def ipv4_table_def)
qed

lemma protocol200_response:
  assumes "ExtractRIP message = Inr rp" "rp_Command rp \<noteq> 1" "table_ok (n_forwardingTable node)" "rip_ready node"
  shows "\<exists>es. protocol200 ns now node message hdr =
    Inr (node\<lparr>n_forwardingTable := fst (mergeEntries now (h_Src hdr) (rp_Entries rp) (n_forwardingTable node))\<rparr>, es)"
proof -
  obtain tab trig where m: "mergeEntries now (h_Src hdr) (rp_Entries rp) (n_forwardingTable node) = (tab, trig)"
    by (cases "mergeEntries now (h_Src hdr) (rp_Entries rp) (n_forwardingTable node)")
  have "ipv4_table trig"
    using mergeEntries_triggered [OF assms(3), of now "h_Src hdr" "rp_Entries rp"] by (simp add: m)
  then obtain es where "sendRIP_all ns (node\<lparr>n_forwardingTable := tab\<rparr>) (n_ripNeighbors node) trig = Inr es"
    using sendRIP_all_defined [of trig "n_ripNeighbors node" "node\<lparr>n_forwardingTable := tab\<rparr>" ns] assms(4)
    by (auto simp: rip_ready_def getInterface_def getNeighbor_def)
  with assms(1,2) m show ?thesis by (simp add: protocol200_def Let_def)
qed

section \<open>An announcement from node to node\<close>

lemma unat_of_length: "n \<le> 114 \<Longrightarrow> unat (of_nat n :: u16) = n"
  by (simp add: unsigned_of_nat take_bit_nat_eq_self)

lemma length_MarshalRIP: "length (MarshalRIP p) = 4 + 12 * length (rp_Entries p)"
  by (induction "rp_Entries p" arbitrary: p) (auto simp: MarshalRIP_def length_concat MarshalEntry_def comp_def sum_list_triv)

definition rip_response :: "RipUpdate list \<Rightarrow> RipPacket" where
  "rip_response es = \<lparr>rp_Command = 2, rp_Num_entries = of_nat (length es), rp_Entries = es\<rparr>"

definition rip_packet :: "netstack \<Rightarrow> u32 \<Rightarrow> u32 \<Rightarrow> RipUpdate list \<Rightarrow> bytes" where
  "rip_packet ns s d es =
     (let data = MarshalRIP (rip_response es)
      in header20 s d 200 16 (length data) (packet_checksum ns s d 200 16 (length data)) @ data)"

lemma length_rip_response: "length (MarshalRIP (rip_response es)) = 4 + 12 * length es"
  by (simp add: length_MarshalRIP rip_response_def)

lemma sendRIP_packet:
  assumes "ripEntries (Addr4 d) tab = Inr es"
    and "ic_AssignedIP (getInterface node (nc_InterfaceName (getNeighbor node (Addr4 d)))) = Addr4 s"
  shows "sendRIP ns node (Addr4 d) tab =
    Inr [ToInterface (nc_InterfaceName (getNeighbor node (Addr4 d))) (rip_packet ns s d es) (Addr4 d)]"
  by (simp add: sendRIP_def assms makePacket_eq Let_def rip_packet_def rip_response_def)

lemma recv_rip_packet:
  assumes "netstack_checksum ns" "length es \<le> 114"
    and ck: "packet_checksum ns s d 200 16 (4 + 12 * length es) \<noteq> 0"
    and B: "checkDest node (Addr4 d)" "map_of (n_handlerTable node) 200 = Some Protocol200" "if_enabled iface"
      "table_ok (n_forwardingTable node)" "rip_ready node"
  shows "\<exists>fs. interfaceRoutine_recv ns now node iface (rip_packet ns s d es) =
    Inr (node\<lparr>n_forwardingTable := fst (mergeEntries now (Addr4 s) es (n_forwardingTable node))\<rparr>, fs)"
proof -
  define data where "data = MarshalRIP (rip_response es)"
  have len: "length data = 4 + 12 * length es" by (simp add: data_def length_rip_response)
  let ?ck = "packet_checksum ns s d 200 16 (length data)"
  define hdr where "hdr = makeHeader (Addr4 s) (Addr4 d) 200 (16 - 1) (length data)\<lparr>h_Checksum := uint ?ck\<rparr>"
  define sp :: bytes where "sp = replicate (MaxMessageSize - length (rip_packet ns s d es)) 0"
  have pkt: "rip_packet ns s d es = header20 s d 200 16 (length data) ?ck @ data"
    by (simp add: rip_packet_def Let_def data_def)
  have "interfaceRoutine_recv ns now node iface (rip_packet ns s d es) =
      handlePackets ns now node \<lparr>vis = rip_packet ns s d es, spare = sp\<rparr>"
    using B(3) assms(2) len by (simp add: interfaceRoutine_recv_def sp_def pkt MaxMessageSize_def)
  also have "\<dots> = protocol200 ns now node \<lparr>vis = data, spare = sp\<rparr> hdr"
    unfolding pkt using handlePackets_header20 [OF assms(1) _ _ _ _ _ refl _ hdr_def, of now node sp]
      ck len assms(2) B(1,2) by (simp add: callHandler_def)
  finally have recv: "interfaceRoutine_recv ns now node iface (rip_packet ns s d es) = \<dots>" .
  have "ExtractRIP \<lparr>vis = data, spare = sp\<rparr> = Inr (rip_response es)"
    using assms(2) by (intro ExtractRIP_MarshalRIP [where r = "[]"]) (simp_all add: rip_response_def unat_of_length data_def)
  from protocol200_response [OF this _ B(4,5), of ns now hdr] show ?thesis
    unfolding recv by (simp add: rip_response_def hdr_def makeHeader_def)
qed

text \<open>
  C16. A RIP announcement travels from one node's table into another's: a node with at most
  114 routes (as many as a datagram holds) announces them to the neighbour at address
  \<open>d\<close> from its interface address \<open>s\<close>; unless the packet's checksum comes out as zero, the
  neighbour's read loop accepts the datagram, and afterwards its table holds for every prefix
  what the distance-vector step gives for the announced cost, and is well-formed.
\<close>

theorem rip_exchange:
  assumes "netstack_checksum ns" "announceable (n_forwardingTable nodeA)" "length (n_forwardingTable nodeA) \<le> 114"
    and A: "ic_AssignedIP (getInterface nodeA (nc_InterfaceName (getNeighbor nodeA (Addr4 d)))) = Addr4 s"
    and ck: "packet_checksum ns s d 200 16 (4 + 12 * length (n_forwardingTable nodeA)) \<noteq> 0"
    and B: "checkDest nodeB (Addr4 d)" "map_of (n_handlerTable nodeB) 200 = Some Protocol200" "if_enabled iface"
      "table_ok (n_forwardingTable nodeB)" "rip_ready nodeB"
  shows "\<exists>name pkt nodeB' es.
    sendRIP ns nodeA (Addr4 d) (n_forwardingTable nodeA) = Inr [ToInterface name pkt (Addr4 d)] \<and>
    interfaceRoutine_recv ns now nodeB iface pkt = Inr (nodeB', es) \<and> table_ok (n_forwardingTable nodeB') \<and>
    (\<forall>p. map_of (n_forwardingTable nodeB') p =
      (case map_of (n_forwardingTable nodeA) p of
         None \<Rightarrow> map_of (n_forwardingTable nodeB) p
       | Some info \<Rightarrow> dv_step now (Addr4 s) p (announced (Addr4 d) info) (map_of (n_forwardingTable nodeB) p)))"
proof -
  from ripEntries_masked [OF assms(2), of "Addr4 d"] obtain es where
      es: "ripEntries (Addr4 d) (n_forwardingTable nodeA) = Inr es" "length es = length (n_forwardingTable nodeA)"
    by blast
  from assms(3) ck have "length es \<le> 114" "packet_checksum ns s d 200 16 (4 + 12 * length es) \<noteq> 0"
    by (simp_all add: es(2))
  from recv_rip_packet [OF assms(1) this B, of now] sendRIP_packet [OF es(1) A, of ns] show ?thesis
    using lookup_after_announcement [OF assms(2) es(1), of now "Addr4 s" "n_forwardingTable nodeB"]
      mergeEntries_table_ok [OF B(4), of now "Addr4 s" es]
    by auto
qed

text \<open>The two neighbours of the routing examples, with interfaces and RIP enabled.\<close>

definition ex_nodeA :: Node where
  "ex_nodeA = ex_router [(''if0'', ex_iface ''if0'' 0x0a000001 0x0a000000)] exampleA\<lparr>n_neighborTable :=
     [(Addr4 0x0a000002, \<lparr>nc_DestAddr = Addr4 0x0a000002, nc_UDPAddr = AddrPortZero, nc_InterfaceName = ''if0''\<rparr>)]\<rparr>"

definition ex_nodeB :: Node where
  "ex_nodeB = ex_router [(''if0'', ex_iface ''if0'' 0x0a000002 0x0a000000)] exampleB\<lparr>n_handlerTable := [(200, Protocol200)]\<rparr>"

theorem rip_exchange_witness:
  "\<exists>name pkt nodeB' es.
    sendRIP ref_netstack ex_nodeA (Addr4 0x0a000002) (n_forwardingTable ex_nodeA) = Inr [ToInterface name pkt (Addr4 0x0a000002)] \<and>
    interfaceRoutine_recv ref_netstack 5 ex_nodeB (ex_iface ''if0'' 0x0a000002 0x0a000000) pkt = Inr (nodeB', es) \<and>
    table_ok (n_forwardingTable nodeB')"
proof -
  have "packet_checksum ref_netstack 0x0a000001 0x0a000002 200 16 28 \<noteq> 0" by (simp add: checksum_eval)
  moreover have "length (n_forwardingTable ex_nodeA) = 2" by (simp add: ex_nodeA_def ex_router_def exampleA_def)
  moreover have "announceable (n_forwardingTable ex_nodeA)"
    using exampleA_announceable by (simp add: ex_nodeA_def ex_router_def)
  moreover have "ic_AssignedIP (getInterface ex_nodeA (nc_InterfaceName (getNeighbor ex_nodeA (Addr4 0x0a000002)))) = Addr4 0x0a000001"
    by (simp add: ex_nodeA_def ex_router_def ex_iface_def getInterface_def getNeighbor_def)
  moreover have "checkDest ex_nodeB (Addr4 0x0a000002)" "map_of (n_handlerTable ex_nodeB) 200 = Some Protocol200"
    "table_ok (n_forwardingTable ex_nodeB)" "rip_ready ex_nodeB" "if_enabled (ex_iface ''if0'' 0x0a000002 0x0a000000)"
    by (simp_all add: ex_nodeB_def ex_router_simps checkDest_def rip_ready_def table_ok_def route_ok_def example_simps INFTY_def)
  ultimately show ?thesis
    using rip_exchange [OF ref_netstack_checksum, where nodeA = ex_nodeA and d = "0x0a000002" and s = "0x0a000001"
        and nodeB = ex_nodeB and iface = "ex_iface ''if0'' 0x0a000002 0x0a000000" and now = 5]
    by auto
qed

end
