(* ===== verification/Pq.thy ===== *)
theory Pq
  imports Prelude
begin

text \<open>
  \<open>pkg/pq/pq.go\<close>: the queue of early packets, and the algorithms of Go's
  \<open>container/heap\<close> that drive it. \<open>heap_interface\<close> is the contract of
  \<open>heap.Interface\<close>; the correctness of sifting up and down is proved once from it and
  reaches the program through its interpretation on \<open>Less\<close> and \<open>Swap\<close> of the queue.
  \<open>priority_queue\<close> is what the TCP receiver relies on.
\<close>

section \<open>container/heap\<close>

function heap_up :: "('q \<Rightarrow> nat \<Rightarrow> nat \<Rightarrow> bool) \<Rightarrow> ('q \<Rightarrow> nat \<Rightarrow> nat \<Rightarrow> 'q) \<Rightarrow> 'q \<Rightarrow> nat \<Rightarrow> 'q" where
  "heap_up lt sw h j =
     (let i = (j - 1) div 2
      in if i = j \<or> \<not> lt h j i then h else heap_up lt sw (sw h i j) i)"
  by pat_completeness auto
termination
  by (relation "measure (\<lambda>(lt, sw, h, j). j)") auto

function heap_down :: "('q \<Rightarrow> nat \<Rightarrow> nat \<Rightarrow> bool) \<Rightarrow> ('q \<Rightarrow> nat \<Rightarrow> nat \<Rightarrow> 'q) \<Rightarrow> 'q \<Rightarrow> nat \<Rightarrow> nat \<Rightarrow> 'q" where
  "heap_down lt sw h i n =
     (let j1 = 2 * i + 1
      in if n \<le> j1 then h
         else let j = (if j1 + 1 < n \<and> lt h (j1 + 1) j1 then j1 + 1 else j1)
              in if \<not> lt h j i then h else heap_down lt sw (sw h i j) j n)"
  by pat_completeness auto
termination
  by (relation "measure (\<lambda>(lt, sw, h, i, n). n - i)") (auto split: if_splits)

declare heap_up.simps [simp del] heap_down.simps [simp del]

section \<open>The queue of early packets\<close>

record EarlyPacket =
  ep_Priority :: u32
  ep_Index :: int
  ep_Flags :: u8
  ep_Payload :: bytes

type_synonym EarlyPriorityQueue = "EarlyPacket list"

definition pq_Less :: "EarlyPriorityQueue \<Rightarrow> nat \<Rightarrow> nat \<Rightarrow> bool" where
  "pq_Less pq i j \<longleftrightarrow> ep_Priority (pq ! i) < ep_Priority (pq ! j)"

definition pq_Swap :: "EarlyPriorityQueue \<Rightarrow> nat \<Rightarrow> nat \<Rightarrow> EarlyPriorityQueue" where
  "pq_Swap pq i j =
     (let pq1 = pq[i := pq ! j, j := pq ! i];
          pq2 = pq1[i := (pq1 ! i)\<lparr>ep_Index := int i\<rparr>]
      in pq2[j := (pq2 ! j)\<lparr>ep_Index := int j\<rparr>])"

definition pq_Push :: "EarlyPriorityQueue \<Rightarrow> EarlyPacket \<Rightarrow> EarlyPriorityQueue" where
  "pq_Push pq x = pq @ [x\<lparr>ep_Index := int (length pq)\<rparr>]"

definition pq_Pop :: "EarlyPriorityQueue \<Rightarrow> (EarlyPacket \<times> EarlyPriorityQueue) res" where
  "pq_Pop pq =
     (if pq = [] then Inl RangePanic else Inr ((last pq)\<lparr>ep_Index := -1\<rparr>, butlast pq))"

text \<open>\<open>heap.Push\<close> and \<open>heap.Pop\<close>; on an empty queue the first \<open>Swap\<close> of \<open>Pop\<close> panics.\<close>

definition heap_Push :: "EarlyPriorityQueue \<Rightarrow> EarlyPacket \<Rightarrow> EarlyPriorityQueue" where
  "heap_Push h x = heap_up pq_Less pq_Swap (pq_Push h x) (length (pq_Push h x) - 1)"

definition heap_Pop :: "EarlyPriorityQueue \<Rightarrow> (EarlyPacket \<times> EarlyPriorityQueue) res" where
  "heap_Pop h =
     (if h = [] then Inl RangePanic
      else let n = length h - 1 in pq_Pop (heap_down pq_Less pq_Swap (pq_Swap h 0 n) 0 n))"

section \<open>Heap order\<close>

abbreviation par :: "nat \<Rightarrow> nat" where
  "par k \<equiv> (k - 1) div 2"

definition heap_ok :: "nat \<Rightarrow> 'k::linorder list \<Rightarrow> bool" where
  "heap_ok n ks \<longleftrightarrow> (\<forall>k. 0 < k \<and> k < n \<longrightarrow> ks ! par k \<le> ks ! k)"

text \<open>Heap order but for the edge above \<open>j\<close>, or the edges below \<open>i\<close>.\<close>

definition up_inv :: "nat \<Rightarrow> 'k::linorder list \<Rightarrow> nat \<Rightarrow> bool" where
  "up_inv n ks j \<longleftrightarrow>
     (\<forall>k. 0 < k \<and> k < n \<and> k \<noteq> j \<longrightarrow> ks ! par k \<le> ks ! k) \<and>
     (0 < j \<longrightarrow> (\<forall>k. 0 < k \<and> k < n \<and> par k = j \<longrightarrow> ks ! par j \<le> ks ! k))"

definition down_inv :: "nat \<Rightarrow> 'k::linorder list \<Rightarrow> nat \<Rightarrow> bool" where
  "down_inv n ks i \<longleftrightarrow>
     (\<forall>k. 0 < k \<and> k < n \<and> par k \<noteq> i \<longrightarrow> ks ! par k \<le> ks ! k) \<and>
     (0 < i \<longrightarrow> (\<forall>k. 0 < k \<and> k < n \<and> par k = i \<longrightarrow> ks ! par i \<le> ks ! k))"

abbreviation swap_list :: "'a list \<Rightarrow> nat \<Rightarrow> nat \<Rightarrow> 'a list" where
  "swap_list xs i j \<equiv> xs[i := xs ! j, j := xs ! i]"

lemma swap_list_nth:
  assumes "i < length xs" "j < length xs" "k < length xs"
  shows "swap_list xs i j ! k = (if k = j then xs ! i else if k = i then xs ! j else xs ! k)"
  using assms by (auto simp: nth_list_update)

lemma heap_ok_min:
  assumes "heap_ok n ks" "k < n"
  shows "ks ! 0 \<le> ks ! k"
  using assms(2)
proof (induction k rule: less_induct)
  case (less k)
  show ?case
  proof (cases "k = 0")
    case False
    then have "par k < k" by auto
    with less have "ks ! 0 \<le> ks ! par k" by simp
    also have "\<dots> \<le> ks ! k" using assms(1) less.prems False by (simp add: heap_ok_def)
    finally show ?thesis .
  qed simp
qed

lemma up_inv_stop:
  assumes "up_inv n ks j" "par j = j \<or> \<not> ks ! j < ks ! par j"
  shows "heap_ok n ks"
  unfolding heap_ok_def
proof (intro allI impI)
  fix k
  assume k: "0 < k \<and> k < n"
  show "ks ! par k \<le> ks ! k"
  proof (cases "k = j")
    case True
    with k assms(2) show ?thesis by (auto simp: not_less)
  qed (use k assms(1) in \<open>auto simp: up_inv_def\<close>)
qed

lemma up_inv_step:
  assumes inv: "up_inv n ks j" and j: "j < n" "n \<le> length ks" and i: "i = par j" "i \<noteq> j"
    and lt: "ks ! j < ks ! i"
  shows "up_inv n (swap_list ks i j) i"
proof -
  let ?ks = "swap_list ks i j"
  have ij: "i < j" using i by auto
  have nth: "?ks ! k = (if k = j then ks ! i else if k = i then ks ! j else ks ! k)" if "k < n" for k
    using that ij j by (intro swap_list_nth) auto
  have inv1: "ks ! par k \<le> ks ! k" if "0 < k" "k < n" "k \<noteq> j" for k
    using inv that by (auto simp: up_inv_def)
  have inv2: "ks ! i \<le> ks ! k" if "0 < k" "k < n" "par k = j" for k
    using inv that ij i(1) by (auto simp: up_inv_def)
  have "?ks ! par k \<le> ?ks ! k" if k: "0 < k" "k < n" "k \<noteq> i" for k
  proof -
    have p: "par k < n" using k by auto
    consider "k = j" | "k \<noteq> j" "par k = i" | "k \<noteq> j" "par k = j" | "k \<noteq> j" "par k \<noteq> i" "par k \<noteq> j" by blast
    then show ?thesis
    proof cases
      case 1
      with i(1) ij lt k show ?thesis unfolding nth [OF k(2)] nth [OF p] by auto
    next
      case 2
      with k ij lt inv1 [of k] show ?thesis unfolding nth [OF k(2)] nth [OF p] by auto
    next
      case 3
      with k ij inv2 [of k] show ?thesis unfolding nth [OF k(2)] nth [OF p] by auto
    next
      case 4
      with k inv1 [of k] show ?thesis unfolding nth [OF k(2)] nth [OF p] by auto
    qed
  qed
  moreover have "?ks ! par i \<le> ?ks ! k" if i0: "0 < i" and k: "0 < k" "k < n" "par k = i" for k
  proof -
    have p: "par i < i" using i0 by auto
    have pi: "?ks ! par i = ks ! par i" using p ij j by (subst nth) auto
    have "ks ! par i \<le> ks ! i" using inv1 [of i] i0 ij j by simp
    moreover have "ks ! i \<le> ks ! k" if "k \<noteq> j" using inv1 [of k] k that by simp
    moreover have "k \<noteq> i" using k i0 by auto
    ultimately show ?thesis unfolding pi nth [OF k(2)] by auto
  qed
  ultimately show ?thesis by (auto simp: up_inv_def)
qed

lemma down_inv_stop:
  assumes "down_inv n ks i" "\<And>k. 0 < k \<Longrightarrow> k < n \<Longrightarrow> par k = i \<Longrightarrow> ks ! i \<le> ks ! k"
  shows "heap_ok n ks"
  unfolding heap_ok_def
proof (intro allI impI)
  fix k
  assume k: "0 < k \<and> k < n"
  then show "ks ! par k \<le> ks ! k"
    using assms by (cases "par k = i") (auto simp: down_inv_def)
qed

lemma down_inv_step:
  assumes inv: "down_inv n ks i" and n: "n \<le> length ks" and j: "0 < j" "j < n" "par j = i"
    and lt: "ks ! j < ks ! i"
    and smallest: "\<And>k. 0 < k \<Longrightarrow> k < n \<Longrightarrow> par k = i \<Longrightarrow> ks ! j \<le> ks ! k"
  shows "down_inv n (swap_list ks i j) j"
proof -
  let ?ks = "swap_list ks i j"
  have ij: "i < j" using j by auto
  have nth: "?ks ! k = (if k = j then ks ! i else if k = i then ks ! j else ks ! k)" if "k < n" for k
    using that ij j n by (intro swap_list_nth) auto
  have inv1: "ks ! par k \<le> ks ! k" if "0 < k" "k < n" "par k \<noteq> i" for k
    using inv that by (auto simp: down_inv_def)
  have "?ks ! par k \<le> ?ks ! k" if k: "0 < k" "k < n" "par k \<noteq> j" for k
  proof -
    have p: "par k < n" using k by auto
    consider "k = i" | "k = j" | "k \<noteq> j" "par k = i" | "k \<noteq> i" "k \<noteq> j" "par k \<noteq> i" by blast
    then show ?thesis
    proof cases
      case 1
      then have "0 < i" "par i \<noteq> i" using k by auto
      with inv j have "ks ! par i \<le> ks ! j" by (auto simp: down_inv_def)
      with 1 ij k \<open>par i \<noteq> i\<close> show ?thesis unfolding nth [OF k(2)] nth [OF p] by auto
    next
      case 2
      with j ij lt show ?thesis unfolding nth [OF k(2)] nth [OF p] by auto
    next
      case 3
      then have "k \<noteq> i" using k by auto
      with 3 k smallest [of k] ij show ?thesis unfolding nth [OF k(2)] nth [OF p] by auto
    next
      case 4
      with k inv1 [of k] show ?thesis unfolding nth [OF k(2)] nth [OF p] by auto
    qed
  qed
  moreover have "?ks ! par j \<le> ?ks ! k" if k: "0 < k" "k < n" "par k = j" for k
  proof -
    have "k \<noteq> j" "k \<noteq> i" "par j < n" using k ij j by auto
    moreover have "ks ! j \<le> ks ! k" using inv1 [of k] k ij by simp
    ultimately show ?thesis using ij j by (simp only: nth k(2) j(3)) auto
  qed
  ultimately show ?thesis unfolding down_inv_def by blast
qed

section \<open>The contract of heap.Interface\<close>

text \<open>
  \<open>elems\<close> reads the elements in array order, \<open>prio\<close> the priority of one. \<open>Less\<close> compares
  priorities and \<open>Swap\<close> exchanges two elements.
\<close>

locale heap_interface =
  fixes elems :: "'q \<Rightarrow> 'e list"
    and prio :: "'e \<Rightarrow> 'k::linorder"
    and Less :: "'q \<Rightarrow> nat \<Rightarrow> nat \<Rightarrow> bool"
    and Swap :: "'q \<Rightarrow> nat \<Rightarrow> nat \<Rightarrow> 'q"
  assumes Less_prio: "i < length (elems q) \<Longrightarrow> j < length (elems q) \<Longrightarrow>
      Less q i j \<longleftrightarrow> prio (elems q ! i) < prio (elems q ! j)"
    and elems_Swap: "i < length (elems q) \<Longrightarrow> j < length (elems q) \<Longrightarrow>
      elems (Swap q i j) = swap_list (elems q) i j"
begin

definition keys :: "'q \<Rightarrow> 'k list" where
  "keys q = map prio (elems q)"

lemma length_keys [simp]: "length (keys q) = length (elems q)"
  by (simp add: keys_def)

lemma Less_keys: "i < length (elems q) \<Longrightarrow> j < length (elems q) \<Longrightarrow> Less q i j \<longleftrightarrow> keys q ! i < keys q ! j"
  by (simp add: keys_def Less_prio)

lemma keys_Swap: "i < length (elems q) \<Longrightarrow> j < length (elems q) \<Longrightarrow> keys (Swap q i j) = swap_list (keys q) i j"
  by (simp add: keys_def elems_Swap map_update)

lemma mset_Swap: "i < length (elems q) \<Longrightarrow> j < length (elems q) \<Longrightarrow> mset (elems (Swap q i j)) = mset (elems q)"
  by (simp add: elems_Swap mset_swap)

lemma length_Swap: "i < length (elems q) \<Longrightarrow> j < length (elems q) \<Longrightarrow> length (elems (Swap q i j)) = length (elems q)"
  by (simp add: elems_Swap)

lemma heap_up_correct:
  assumes "up_inv n (keys q) j" "j < n" "n = length (elems q)"
  shows "heap_ok n (keys (heap_up Less Swap q j)) \<and> mset (elems (heap_up Less Swap q j)) = mset (elems q)"
  using assms
proof (induction j arbitrary: q rule: less_induct)
  case (less j)
  define i where "i = par j"
  have i: "i < length (elems q)" "j < length (elems q)" using less.prems by (auto simp: i_def)
  show ?case
  proof (cases "i = j \<or> \<not> Less q j i")
    case True
    then have "heap_up Less Swap q j = q" by (subst heap_up.simps) (simp add: i_def)
    moreover have "heap_ok n (keys q)"
      using less.prems(1) True Less_keys [OF i(2,1)] by (intro up_inv_stop) (auto simp: i_def)
    ultimately show ?thesis by simp
  next
    case False
    then have u: "heap_up Less Swap q j = heap_up Less Swap (Swap q i j) i"
      by (subst heap_up.simps) (simp add: i_def Let_def)
    have "up_inv n (keys (Swap q i j)) i"
      unfolding keys_Swap [OF i]
      using less.prems False Less_keys [OF i(2,1)] by (intro up_inv_step) (auto simp: i_def)
    moreover have "i < j" using False by (auto simp: i_def)
    ultimately show ?thesis
      unfolding u using less.IH [of i "Swap q i j"] less.prems mset_Swap [OF i] length_Swap [OF i] by simp
  qed
qed

lemma heap_down_correct:
  assumes "down_inv n (keys q) i" "i < n \<or> n = 0" "n \<le> length (elems q)"
  shows "heap_ok n (keys (heap_down Less Swap q i n)) \<and>
    mset (elems (heap_down Less Swap q i n)) = mset (elems q) \<and>
    drop n (elems (heap_down Less Swap q i n)) = drop n (elems q)"
  using assms
proof (induction "n - i" arbitrary: i q rule: less_induct)
  case less
  define j where "j = (if 2 * i + 2 < n \<and> Less q (2 * i + 2) (2 * i + 1) then 2 * i + 2 else 2 * i + 1)"
  have children: "k = 2 * i + 1 \<or> k = 2 * i + 2" if "0 < k" "par k = i" for k
    using that by auto
  show ?case
  proof (cases "n \<le> 2 * i + 1")
    case True
    then have "heap_down Less Swap q i n = q" by (subst heap_down.simps) simp
    moreover have "heap_ok n (keys q)"
      using less.prems(1) True children by (intro down_inv_stop) fastforce+
    ultimately show ?thesis by simp
  next
    case big: False
    have j: "0 < j" "j < n" "par j = i" using big by (auto simp: j_def)
    have len: "i < length (elems q)" "j < length (elems q)" using j less.prems by auto
    have smallest: "keys q ! j \<le> keys q ! k" if "0 < k" "k < n" "par k = i" for k
      using children [OF that(1,3)] that(2) less.prems(3) big
      by (auto simp: j_def Less_keys not_less)
    have u: "heap_down Less Swap q i n = (if \<not> Less q j i then q else heap_down Less Swap (Swap q i j) j n)"
      using big by (subst heap_down.simps) (simp add: j_def Let_def)
    show ?thesis
    proof (cases "Less q j i")
      case False
      then have le: "keys q ! i \<le> keys q ! j" using Less_keys [OF len(2,1)] by simp
      have "heap_ok n (keys q)"
        using less.prems(1) by (rule down_inv_stop) (metis le smallest order_trans)
      with False show ?thesis by (simp add: u)
    next
      case True
      have "down_inv n (keys (Swap q i j)) j"
        unfolding keys_Swap [OF len]
        using less.prems j True Less_keys [OF len(2,1)] smallest by (intro down_inv_step) auto
      moreover have "drop n (elems (Swap q i j)) = drop n (elems q)"
        using j by (simp add: elems_Swap [OF len])
      ultimately show ?thesis
        using True less.hyps [of j "Swap q i j"] less.prems j mset_Swap [OF len] length_Swap [OF len]
        by (auto simp: u)
    qed
  qed
qed

end

section \<open>The contract of a priority queue\<close>

text \<open>What a client may rely on: the content is a multiset, \<open>pop\<close> removes a smallest element.\<close>

locale priority_queue =
  fixes empty :: 'q
    and push :: "'q \<Rightarrow> 'x \<Rightarrow> 'q"
    and pop :: "'q \<Rightarrow> ('x \<times> 'q) res"
    and invar :: "'q \<Rightarrow> bool"
    and val :: "'x \<Rightarrow> 'e"
    and prio :: "'e \<Rightarrow> 'k::linorder"
    and content :: "'q \<Rightarrow> 'e multiset"
  assumes invar_empty: "invar empty"
    and content_empty: "content empty = {#}"
    and invar_push: "invar q \<Longrightarrow> invar (push q x)"
    and content_push: "invar q \<Longrightarrow> content (push q x) = add_mset (val x) (content q)"
    and pop_nonempty: "invar q \<Longrightarrow> content q \<noteq> {#} \<Longrightarrow>
      \<exists>x q'. pop q = Inr (x, q') \<and> invar q' \<and> content q = add_mset (val x) (content q') \<and>
        (\<forall>y \<in># content q. prio (val x) \<le> prio y)"

text \<open>Popping \<open>n\<close> times.\<close>

fun pop_n :: "('q \<Rightarrow> ('x \<times> 'q) res) \<Rightarrow> nat \<Rightarrow> 'q \<Rightarrow> 'x list res" where
  "pop_n pop 0 q = Inr []"
| "pop_n pop (Suc n) q = bindr (pop q) (\<lambda>(x, q'). bindr (pop_n pop n q') (\<lambda>xs. Inr (x # xs)))"

context priority_queue
begin

lemma pop_n_sorted:
  assumes "invar q" "size (content q) = n"
  shows "\<exists>xs. pop_n pop n q = Inr xs \<and> mset (map val xs) = content q \<and> sorted (map (\<lambda>x. prio (val x)) xs)"
  using assms
proof (induction n arbitrary: q)
  case (Suc n)
  then have "content q \<noteq> {#}" by auto
  then obtain x q' where x: "pop q = Inr (x, q')" "invar q'" "content q = add_mset (val x) (content q')"
      "\<forall>y \<in># content q. prio (val x) \<le> prio y"
    using pop_nonempty Suc.prems(1) by blast
  then obtain xs where xs: "pop_n pop n q' = Inr xs" "mset (map val xs) = content q'"
      "sorted (map (\<lambda>x. prio (val x)) xs)"
    using Suc.IH [of q'] Suc.prems(2) by auto
  have "\<forall>y \<in> set (map val xs). prio (val x) \<le> prio y"
    using x(3,4) xs(2) by (metis set_mset_mset union_iff add_mset_add_single)
  with x xs show ?case by (auto simp del: mset_map)
qed auto

end

section \<open>The early queue implements it\<close>

definition ep_content :: "EarlyPacket \<Rightarrow> u32 \<times> u8 \<times> bytes" where
  "ep_content p = (ep_Priority p, ep_Flags p, ep_Payload p)"

definition pq_ok :: "EarlyPriorityQueue \<Rightarrow> bool" where
  "pq_ok q \<longleftrightarrow> heap_ok (length q) (map ep_Priority q) \<and> (\<forall>i < length q. ep_Index (q ! i) = int i)"

lemma ep_content_Index [simp]: "ep_content (p\<lparr>ep_Index := i\<rparr>) = ep_content p"
  by (simp add: ep_content_def)

interpretation early: heap_interface "map ep_content" fst pq_Less pq_Swap
proof unfold_locales
  fix i j :: nat and q :: EarlyPriorityQueue
  assume ij: "i < length (map ep_content q)" "j < length (map ep_content q)"
  show "pq_Less q i j \<longleftrightarrow> fst (map ep_content q ! i) < fst (map ep_content q ! j)"
    using ij by (simp add: pq_Less_def ep_content_def)
  show "map ep_content (pq_Swap q i j) = swap_list (map ep_content q) i j"
    using ij by (auto simp: pq_Swap_def Let_def map_update nth_list_update intro!: nth_equalityI)
qed

lemma early_keys [simp]: "early.keys q = map ep_Priority q"
  by (simp add: early.keys_def ep_content_def)

lemma length_pq_Swap [simp]: "length (pq_Swap q i j) = length q"
  by (simp add: pq_Swap_def Let_def)

lemma pq_Swap_Index:
  assumes "\<forall>k < length q. ep_Index (q ! k) = int k" "i < length q" "j < length q"
  shows "\<forall>k < length (pq_Swap q i j). ep_Index (pq_Swap q i j ! k) = int k"
  using assms by (auto simp: pq_Swap_def Let_def nth_list_update)

lemma heap_up_Index:
  assumes "\<forall>k < length q. ep_Index (q ! k) = int k" "j < length q"
  shows "\<forall>k < length (heap_up pq_Less pq_Swap q j). ep_Index (heap_up pq_Less pq_Swap q j ! k) = int k"
  using assms
proof (induction j arbitrary: q rule: less_induct)
  case (less j)
  show ?case
  proof (cases "par j = j \<or> \<not> pq_Less q j (par j)")
    case True
    with less.prems show ?thesis by (subst heap_up.simps, subst heap_up.simps) (simp add: Let_def)
  next
    case False
    then have "heap_up pq_Less pq_Swap q j = heap_up pq_Less pq_Swap (pq_Swap q (par j) j) (par j)"
      by (subst heap_up.simps) (simp add: Let_def)
    moreover have "par j < j" "par j < length q" using False less.prems by auto
    ultimately show ?thesis
      using less.IH [of "par j" "pq_Swap q (par j) j"] pq_Swap_Index less.prems by simp
  qed
qed

lemma heap_down_Index:
  assumes "\<forall>k < length q. ep_Index (q ! k) = int k" "n \<le> length q"
  shows "\<forall>k < length (heap_down pq_Less pq_Swap q i n). ep_Index (heap_down pq_Less pq_Swap q i n ! k) = int k"
  using assms
proof (induction "n - i" arbitrary: i q rule: less_induct)
  case less
  define j where "j = (if 2 * i + 2 < n \<and> pq_Less q (2 * i + 2) (2 * i + 1) then 2 * i + 2 else 2 * i + 1)"
  have u: "heap_down pq_Less pq_Swap q i n =
      (if n \<le> 2 * i + 1 \<or> \<not> pq_Less q j i then q else heap_down pq_Less pq_Swap (pq_Swap q i j) j n)"
    by (subst heap_down.simps) (simp add: j_def Let_def)
  show ?case
  proof (cases "n \<le> 2 * i + 1 \<or> \<not> pq_Less q j i")
    case False
    then have "n - j < n - i" "i < length q" "j < length q" using less.prems by (auto simp: j_def)
    then show ?thesis
      using False less.hyps [of j "pq_Swap q i j"] pq_Swap_Index less.prems by (simp add: u)
  qed (use less.prems in \<open>simp add: u\<close>)
qed

lemma pq_ok_parent:
  assumes "pq_ok q" "0 < k" "k < length q"
  shows "ep_Priority (q ! par k) \<le> ep_Priority (q ! k)"
proof -
  have "par k < length q" using assms by auto
  with assms show ?thesis by (auto simp: pq_ok_def heap_ok_def)
qed

lemma drop_all_but_last: "length xs = Suc n \<Longrightarrow> drop n xs = [xs ! n]"
  by (metis Cons_nth_drop_Suc drop_all lessI order_refl)

lemma heap_up_early:
  assumes "up_inv (Suc n) (early.keys q) n" "length q = Suc n"
  shows "heap_ok (Suc n) (map ep_Priority (heap_up pq_Less pq_Swap q n))"
    and "mset (map ep_content (heap_up pq_Less pq_Swap q n)) = mset (map ep_content q)"
proof -
  have "heap_ok (Suc n) (early.keys (heap_up pq_Less pq_Swap q n)) \<and>
      mset (map ep_content (heap_up pq_Less pq_Swap q n)) = mset (map ep_content q)"
    using assms by (intro early.heap_up_correct) auto
  then show "heap_ok (Suc n) (map ep_Priority (heap_up pq_Less pq_Swap q n))"
    and "mset (map ep_content (heap_up pq_Less pq_Swap q n)) = mset (map ep_content q)"
    by simp_all
qed

lemma heap_Push_correct:
  assumes "pq_ok q"
  shows "pq_ok (heap_Push q x)" and "mset (map ep_content (heap_Push q x)) = add_mset (ep_content x) (mset (map ep_content q))"
proof -
  let ?q = "pq_Push q x" and ?n = "Suc (length q)"
  have len: "length ?q = ?n" by (simp add: pq_Push_def)
  have up: "up_inv ?n (early.keys ?q) (length q)"
    unfolding up_inv_def
  proof (intro conjI allI impI)
    fix k
    assume k: "0 < k \<and> k < ?n \<and> k \<noteq> length q"
    then have "par k < length q" "k < length q" by auto
    with pq_ok_parent [OF assms, of k] k show "early.keys ?q ! par k \<le> early.keys ?q ! k"
      by (simp add: pq_Push_def nth_append)
  next
    fix k
    assume "0 < k \<and> k < ?n \<and> par k = length q"
    then have "par k < k" "k \<le> length q" "par k = length q" by auto
    then have False by simp
    then show "early.keys ?q ! par (length q) \<le> early.keys ?q ! k" ..
  qed
  note c = heap_up_early [OF up len]
  have p: "heap_Push q x = heap_up pq_Less pq_Swap ?q (length q)"
    by (simp add: heap_Push_def len)
  have l: "length (heap_Push q x) = ?n"
    using arg_cong [OF c(2), of size] by (simp add: p len)
  have idx: "\<forall>k < length ?q. ep_Index (?q ! k) = int k"
    using assms by (auto simp: pq_ok_def pq_Push_def nth_append)
  show "pq_ok (heap_Push q x)"
    unfolding pq_ok_def using c(1) heap_up_Index [OF idx, of "length q"] l by (simp add: p len)
  show "mset (map ep_content (heap_Push q x)) = add_mset (ep_content x) (mset (map ep_content q))"
    using c(2) by (simp add: p pq_Push_def)
qed

lemma heap_Pop_correct:
  assumes "pq_ok q" "q \<noteq> []"
  shows "\<exists>x q'. heap_Pop q = Inr (x, q') \<and> pq_ok q' \<and> ep_content x = ep_content (q ! 0) \<and>
    mset (map ep_content q) = add_mset (ep_content x) (mset (map ep_content q'))"
proof -
  define n where "n = length q - 1"
  have n: "length q = Suc n" and n0: "0 < length q" "n < length q" using assms(2) by (simp_all add: n_def)
  let ?s = "pq_Swap q 0 n"
  let ?d = "heap_down pq_Less pq_Swap ?s 0 n"
  have el: "map ep_content ?s = swap_list (map ep_content q) 0 n"
    using n0 by (intro early.elems_Swap) auto
  have ks: "map ep_Priority ?s = swap_list (map ep_Priority q) 0 n"
    using early.keys_Swap [of 0 q n] n0 by simp
  have "down_inv n (early.keys ?s) 0"
    unfolding down_inv_def early_keys ks
  proof (intro conjI allI impI)
    fix k
    assume k: "0 < k \<and> k < n \<and> par k \<noteq> 0"
    then have "par k < n" "par k \<noteq> n" "k \<noteq> n" by auto
    with pq_ok_parent [OF assms(1), of k] k n
    show "swap_list (map ep_Priority q) 0 n ! par k \<le> swap_list (map ep_Priority q) 0 n ! k"
      by (auto simp: nth_list_update)
  qed auto
  then have d: "heap_ok n (map ep_Priority ?d)" "mset (map ep_content ?d) = mset (map ep_content ?s)"
      "drop n (map ep_content ?d) = drop n (map ep_content ?s)"
    using early.heap_down_correct [of n ?s 0] n by auto
  have ld: "length ?d = Suc n" using arg_cong [OF d(2), of size] n by simp
  then have dne: "?d \<noteq> []" by auto
  have lastd: "ep_content (last ?d) = ep_content (q ! 0)"
  proof -
    have "drop n (map ep_content ?d) = [ep_content (last ?d)]"
      using ld dne by (subst drop_all_but_last) (auto simp: last_conv_nth)
    moreover have "drop n (map ep_content ?s) = [ep_content (q ! 0)]"
      unfolding el using n n0 by (subst drop_all_but_last) (auto simp: nth_list_update)
    ultimately show ?thesis using d(3) by simp
  qed
  have idx: "\<forall>k < length ?d. ep_Index (?d ! k) = int k"
    using assms(1) n0 by (intro heap_down_Index pq_Swap_Index) (auto simp: pq_ok_def)
  have pop: "heap_Pop q = Inr ((last ?d)\<lparr>ep_Index := -1\<rparr>, butlast ?d)"
    using assms(2) dne by (simp add: heap_Pop_def pq_Pop_def n_def Let_def)
  have "pq_ok (butlast ?d)"
    using d(1) idx ld by (auto simp: pq_ok_def heap_ok_def nth_butlast map_butlast [symmetric])
  moreover have "mset (map ep_content q) = add_mset (ep_content (last ?d)) (mset (map ep_content (butlast ?d)))"
  proof -
    have "mset (map ep_content q) = mset (map ep_content ?d)"
      using early.mset_Swap [of 0 q n] n0 d(2) by simp
    also have "\<dots> = mset (map ep_content (butlast ?d @ [last ?d]))" using dne by simp
    finally show ?thesis by simp
  qed
  ultimately show ?thesis using pop lastd by (auto simp: ep_content_def)
qed

lemma pq_ok_front:
  assumes "pq_ok q" "q \<noteq> []" "c \<in># mset (map ep_content q)"
  shows "ep_Priority (q ! 0) \<le> fst c"
proof -
  obtain k where "k < length q" "c = ep_content (q ! k)"
    using assms(3) by (auto simp: in_set_conv_nth)
  with heap_ok_min [of "length q" "map ep_Priority q" k] assms(1,2) show ?thesis
    by (simp add: pq_ok_def ep_content_def)
qed

interpretation early_queue: priority_queue "[]" heap_Push heap_Pop pq_ok ep_content fst "\<lambda>q. mset (map ep_content q)"
proof unfold_locales
  show "pq_ok []" by (simp add: pq_ok_def heap_ok_def)
next
  fix q :: EarlyPriorityQueue and x
  assume "pq_ok q"
  then show "pq_ok (heap_Push q x)"
    and "mset (map ep_content (heap_Push q x)) = add_mset (ep_content x) (mset (map ep_content q))"
    by (rule heap_Push_correct)+
next
  fix q :: EarlyPriorityQueue
  assume q: "pq_ok q" "mset (map ep_content q) \<noteq> {#}"
  then have "q \<noteq> []" by auto
  from heap_Pop_correct [OF q(1) this] obtain x q' where x: "heap_Pop q = Inr (x, q')" "pq_ok q'"
      "ep_content x = ep_content (q ! 0)" "mset (map ep_content q) = add_mset (ep_content x) (mset (map ep_content q'))"
    by blast
  moreover have "\<forall>y \<in># mset (map ep_content q). fst (ep_content x) \<le> fst y"
    using pq_ok_front [OF q(1) \<open>q \<noteq> []\<close>] x(3) by (simp add: ep_content_def)
  ultimately show "\<exists>x q'. heap_Pop q = Inr (x, q') \<and> pq_ok q' \<and>
      mset (map ep_content q) = add_mset (ep_content x) (mset (map ep_content q')) \<and>
      (\<forall>y \<in># mset (map ep_content q). fst (ep_content x) \<le> fst y)"
    by blast
qed simp

lemma push_all:
  assumes "pq_ok q"
  shows "pq_ok (foldl heap_Push q xs) \<and>
    mset (map ep_content (foldl heap_Push q xs)) = mset (map ep_content q) + mset (map ep_content xs)"
  using assms
proof (induction xs arbitrary: q)
  case (Cons x xs)
  from Cons.IH [OF heap_Push_correct(1) [OF Cons.prems]] heap_Push_correct(2) [OF Cons.prems]
  show ?case by simp
qed simp

text \<open>
  C10: the early queue sorts. Whatever packets are pushed with \<open>heap.Push\<close>, in whatever
  order, popping as many with \<open>heap.Pop\<close> never panics and returns exactly their contents,
  in ascending order of sequence number.
\<close>
theorem early_queue_sorts:
  "\<exists>ys. pop_n heap_Pop (length xs) (foldl heap_Push [] xs) = Inr ys \<and>
     mset (map ep_content ys) = mset (map ep_content xs) \<and> sorted (map ep_Priority ys)"
proof -
  have q: "pq_ok (foldl heap_Push [] xs)" "mset (map ep_content (foldl heap_Push [] xs)) = mset (map ep_content xs)"
    using push_all [OF early_queue.invar_empty, of xs] by auto
  have "size (mset (map ep_content (foldl heap_Push [] xs))) = length xs"
    unfolding q(2) by simp
  from early_queue.pop_n_sorted [OF q(1) this] show ?thesis
    unfolding q(2) by (simp add: ep_content_def)
qed

text \<open>
  C19: both operations keep the queue a heap whose elements know their position (\<open>Index\<close>),
  and popping removes the front element \<open>earlyPQ[0]\<close>, which no other element precedes.
\<close>
theorem early_queue_invariant:
  assumes "pq_ok q"
  shows "pq_ok (heap_Push q p) \<and> heap_Push q p \<noteq> [] \<and>
    (if q = [] then heap_Pop q = Inl RangePanic
     else \<exists>x q'. heap_Pop q = Inr (x, q') \<and> pq_ok q' \<and> ep_content x = ep_content (q ! 0) \<and>
       length q = Suc (length q') \<and> (\<forall>y \<in> set q. ep_Priority x \<le> ep_Priority y))"
proof -
  have "heap_Push q p \<noteq> []"
    using heap_Push_correct(2) [OF assms, of p] by auto
  moreover have "\<exists>x q'. heap_Pop q = Inr (x, q') \<and> pq_ok q' \<and> ep_content x = ep_content (q ! 0) \<and>
      length q = Suc (length q') \<and> (\<forall>y \<in> set q. ep_Priority x \<le> ep_Priority y)" if ne: "q \<noteq> []"
  proof -
    obtain x q' where x: "heap_Pop q = Inr (x, q')" "pq_ok q'" "ep_content x = ep_content (q ! 0)"
      "mset (map ep_content q) = add_mset (ep_content x) (mset (map ep_content q'))"
      using heap_Pop_correct [OF assms ne] by blast
    have "length q = Suc (length q')"
      using arg_cong [OF x(4), of size] by simp
    moreover have "ep_Priority x \<le> ep_Priority y" if "y \<in> set q" for y
      using pq_ok_front [OF assms ne, of "ep_content y"] that x(3) by (simp add: ep_content_def)
    ultimately show ?thesis using x by blast
  qed
  ultimately show ?thesis
    using heap_Push_correct(1) [OF assms] by (simp add: heap_Pop_def)
qed

definition pq_example :: EarlyPriorityQueue where
  "pq_example = [\<lparr>ep_Priority = 5, ep_Index = 0, ep_Flags = 16, ep_Payload = [1]\<rparr>,
     \<lparr>ep_Priority = 9, ep_Index = 1, ep_Flags = 16, ep_Payload = [2]\<rparr>]"

lemma pq_example_ok: "pq_ok pq_example"
  by (auto simp: pq_ok_def heap_ok_def pq_example_def less_Suc_eq)

theorem early_queue_invariant_witness:
  "pq_ok pq_example \<and> pq_ok (heap_Push pq_example (pq_example ! 0)) \<and>
    (\<exists>x q'. heap_Pop pq_example = Inr (x, q') \<and> pq_ok q')"
  using early_queue_invariant [OF pq_example_ok, of "pq_example ! 0"] pq_example_ok
  by (auto simp: pq_example_def)

end
