(* ===== verification/Tcp_Stack.thy ===== *)
theory Tcp_Stack
  imports Node_Packets Pq Complex_Main
begin

text \<open>
  \<open>pkg/tcpstack/tcpstack.go\<close>, first part: the data of the TCP stack, segments, the socket
  table and the demultiplexer in \<open>Initialize\<close>. The socket table invariant relates the table
  of sockets and the table of socket identifiers; a segment sent by \<open>HandleSend\<close> arrives at
  the peer's demultiplexer as it was sent.

  Sockets are pointers in the source, shared by the table and the goroutines of a
  connection. The operations of a connection are functions on the socket's fields, in the
  theories that follow; here the table holds the sockets.
\<close>

section \<open>Data\<close>

datatype tcp_state = LISTEN | SYN_SENT | SYN_RECEIVED | ESTABLISHED | FIN_WAIT_1 | FIN_WAIT_2
  | CLOSE_WAIT | LAST_ACK | TIME_WAIT

definition SYNACK :: "netstack \<Rightarrow> u8" where
  "SYNACK ns = ns_FlagSyn ns OR ns_FlagAck ns"

definition FINACK :: "netstack \<Rightarrow> u8" where
  "FINACK ns = ns_FlagFin ns OR ns_FlagAck ns"

definition WINDOW_SIZE :: u32 where
  "WINDOW_SIZE = 65536"

definition MSS :: u16 where
  "MSS = 1360"

fun stateMap :: "tcp_state \<Rightarrow> string" where
  "stateMap LISTEN = ''LISTEN''"
| "stateMap SYN_SENT = ''SYN_SENT''"
| "stateMap SYN_RECEIVED = ''SYN_RECEIVED''"
| "stateMap ESTABLISHED = ''ESTABLISHED''"
| "stateMap FIN_WAIT_1 = ''FIN_WAIT_1''"
| "stateMap FIN_WAIT_2 = ''FIN_WAIT_2''"
| "stateMap CLOSE_WAIT = ''CLOSE_WAIT''"
| "stateMap LAST_ACK = ''LAST_ACK''"
| "stateMap TIME_WAIT = ''TIME_WAIT''"

record ReadBuffer =
  rb_buffer :: bytes
  rb_LBR :: u32
  rb_NXT :: u32

record WriteBuffer =
  wb_buffer :: bytes
  wb_UNA :: u32
  wb_NXT :: u32
  wb_LBW :: u32

record ListenSocket =
  ls_localPort :: u16
  ls_SID :: u16

definition RTO_MIN :: real where
  "RTO_MIN = 500"

definition RTO_MAX :: real where
  "RTO_MAX = 5000"

text \<open>
  The buffers are nil until the connection is established; \<open>stateMtx\<close> and \<open>unackedMtx\<close>
  record that a mutex is left locked by code that has moved on.
\<close>

record NormalSocket =
  so_SID :: u16
  so_readBuffer :: "ReadBuffer option"
  so_writeBuffer :: "WriteBuffer option"
  so_state :: tcp_state
  so_stateMtx :: bool
  so_baseSeq :: u32
  so_baseAck :: u32
  so_ClientWindowSize :: u16
  so_unackedNums :: "(u32 \<times> int) list"
  so_unackedFINs :: "(u32 \<times> bool) list"
  so_unackedMtx :: bool
  so_earlyPQ :: EarlyPriorityQueue
  so_index :: int
  so_key :: SocketTableKey
  so_RTO :: real
  so_SRTT :: real
  so_cumWriteUNA :: u32
  so_cumReadNXT :: u32
  so_notFirstWrite :: bool

datatype Socket = Listen ListenSocket | Normal NormalSocket

record TCPStack =
  ts_SocketTable :: "(SocketTableKey \<times> Socket) list"
  ts_ip :: Addr
  ts_SID_to_sk :: "(u16 \<times> SocketTableKey) list"
  ts_SID :: u16

record TCPPacket =
  tp_sourceIp :: Addr
  tp_destIp :: Addr
  tp_payload :: bytes
  tp_flags :: u8
  tp_sourcePort :: u16
  tp_destPort :: u16
  tp_seqNum :: u32
  tp_ackNum :: u32
  tp_window :: u16

section \<open>Segments\<close>

definition segmentFields :: "TCPPacket \<Rightarrow> TCPFields" where
  "segmentFields p = \<lparr>tf_SrcPort = tp_sourcePort p, tf_DstPort = tp_destPort p, tf_SeqNum = tp_seqNum p,
     tf_AckNum = tp_ackNum p, tf_DataOffset = 20, tf_Flags = tp_flags p, tf_WindowSize = tp_window p,
     tf_Checksum = 0, tf_UrgentPointer = 0\<rparr>"

definition marshallTCPPacket :: "netstack \<Rightarrow> TCPPacket \<Rightarrow> bytes" where
  "marshallTCPPacket ns p =
     (let tcpHdr = segmentFields p;
          checksum = ComputeTCPChecksum ns tcpHdr (tp_sourceIp p) (tp_destIp p) (tp_payload p)
      in ns_Encode ns (tcpHdr\<lparr>tf_Checksum := checksum\<rparr>) @ tp_payload p)"

section \<open>The socket table\<close>

definition listenKey :: "u16 \<Rightarrow> SocketTableKey" where
  "listenKey port = \<lparr>sk_LocalAddr = AddrZero, sk_LocalPort = port, sk_RemoteAddr = AddrZero, sk_RemotePort = 0\<rparr>"

definition newStack :: "Node \<Rightarrow> TCPStack" where
  "newStack n = \<lparr>ts_SocketTable = [], ts_ip = n_IpAddr n, ts_SID_to_sk = [], ts_SID = 0\<rparr>"

definition flipSocketKeyFields :: "SocketTableKey \<Rightarrow> SocketTableKey" where
  "flipSocketKeyFields sk = \<lparr>sk_LocalAddr = sk_RemoteAddr sk, sk_LocalPort = sk_RemotePort sk,
     sk_RemoteAddr = sk_LocalAddr sk, sk_RemotePort = sk_LocalPort sk\<rparr>"

text \<open>
  One turn of the goroutine of \<open>Initialize\<close>: to which socket a segment goes. Both branches
  contain a type assertion that panics on a socket of the other kind.
\<close>

datatype delivery = ToNormal SocketTableKey | ToListener SocketTableKey | Ignored

definition demux :: "TCPStack \<Rightarrow> TCPInfo \<Rightarrow> delivery res" where
  "demux t received =
     (let key = flipSocketKeyFields (ti_key received);
          listenTuple = listenKey (sk_RemotePort (ti_key received));
          toListener = (case map_of (ts_SocketTable t) listenTuple of
              None \<Rightarrow> Inr Ignored
            | Some (Listen l) \<Rightarrow> Inr (ToListener listenTuple)
            | Some (Normal s) \<Rightarrow> Inl AssertPanic)
      in case map_of (ts_SocketTable t) key of
           None \<Rightarrow> toListener
         | Some (Listen l) \<Rightarrow> Inl AssertPanic
         | Some (Normal s) \<Rightarrow> if so_state s \<noteq> SYN_RECEIVED then Inr (ToNormal key) else toListener)"

text \<open>Entering a new socket: both tables, and the next identifier, which wraps.\<close>

definition addSocket :: "TCPStack \<Rightarrow> SocketTableKey \<Rightarrow> Socket \<Rightarrow> TCPStack" where
  "addSocket t sk s =
     t\<lparr>ts_SocketTable := AList.update sk s (ts_SocketTable t),
       ts_SID_to_sk := AList.update (ts_SID t) sk (ts_SID_to_sk t), ts_SID := ts_SID t + 1\<rparr>"

definition VListen :: "TCPStack \<Rightarrow> u16 \<Rightarrow> string + (TCPStack \<times> ListenSocket)" where
  "VListen t port =
     (if map_of (ts_SocketTable t) (listenKey port) \<noteq> None
      then Inl (''already listening on port '' @ show_nat (unat port))
      else
        let lsock = \<lparr>ls_localPort = port, ls_SID = ts_SID t\<rparr>
        in Inr (addSocket t (listenKey port) (Listen lsock), lsock))"

fun getSID :: "Socket \<Rightarrow> u16" where
  "getSID (Normal s) = so_SID s"
| "getSID (Listen l) = ls_SID l"

text \<open>Reading a missing identifier yields the zero key.\<close>

definition deleteTCB :: "TCPStack \<Rightarrow> Socket \<Rightarrow> TCPStack" where
  "deleteTCB t sock =
     (let sk = (case map_of (ts_SID_to_sk t) (getSID sock) of None \<Rightarrow> listenKey 0 | Some k \<Rightarrow> k)
      in t\<lparr>ts_SocketTable := AList.delete sk (ts_SocketTable t),
           ts_SID_to_sk := AList.delete (getSID sock) (ts_SID_to_sk t)\<rparr>)"

definition VClose_listen :: "TCPStack \<Rightarrow> ListenSocket \<Rightarrow> TCPStack" where
  "VClose_listen t sock = deleteTCB t (Listen sock)"

fun printSocket :: "Socket \<Rightarrow> string" where
  "printSocket (Normal s) = ''  '' @ show_nat (unat (so_SID s)) @ ''   '' @ padl 8 (addr_String (sk_LocalAddr (so_key s)))
     @ '' '' @ padl 5 (show_nat (unat (sk_LocalPort (so_key s)))) @ ''   ''
     @ padl 8 (addr_String (sk_RemoteAddr (so_key s))) @ '' ''
     @ padl 5 (show_nat (unat (sk_RemotePort (so_key s)))) @ '' '' @ padl 12 (stateMap (so_state s))"
| "printSocket (Listen l) = ''  '' @ show_nat (unat (ls_SID l)) @ ''    0.0.0.0 ''
     @ padl 5 (show_nat (unat (ls_localPort l))) @ ''    0.0.0.0     0       LISTEN''"

definition PrintTable :: "TCPStack \<Rightarrow> string list" where
  "PrintTable t = ''SID      LAddr LPort      RAddr RPort       Status'' # map (\<lambda>(k, s). printSocket s) (ts_SocketTable t)"

section \<open>A segment reaches the peer as it was sent\<close>

lemma ParseTCPHeader_marshalled:
  assumes "netstack_codec ns"
  shows "ParseTCPHeader ns (marshallTCPPacket ns p) =
    Inr (segmentFields p\<lparr>tf_Checksum :=
      ComputeTCPChecksum ns (segmentFields p) (tp_sourceIp p) (tp_destIp p) (tp_payload p)\<rparr>)"
  using assms by (simp add: ParseTCPHeader_def marshallTCPPacket_def netstack_codec_def segmentFields_def Let_def)

definition segmentInfo :: "Addr \<Rightarrow> TCPPacket \<Rightarrow> TCPInfo" where
  "segmentInfo ip p = \<lparr>ti_key = \<lparr>sk_LocalAddr = tp_sourceIp p, sk_LocalPort = tp_sourcePort p,
       sk_RemoteAddr = ip, sk_RemotePort = tp_destPort p\<rparr>,
     ti_Flag = tp_flags p, ti_SeqNum = tp_seqNum p, ti_AckNum = tp_ackNum p, ti_WindowSize = tp_window p,
     ti_Payload = tp_payload p\<rparr>"

lemma protocol6_marshalled:
  assumes "netstack_codec ns" "vis message = marshallTCPPacket ns p"
    and "h_Src hdr = tp_sourceIp p" "h_Dst hdr = tp_destIp p"
  shows "protocol6 ns node message hdr = Inr [ToTCP (segmentInfo (n_IpAddr node) p)]"
proof -
  have len: "length (ns_Encode ns f) = 20" for f using assms(1) by (simp add: netstack_codec_def)
  let ?ck = "ComputeTCPChecksum ns (segmentFields p) (tp_sourceIp p) (tp_destIp p) (tp_payload p)"
  have m: "vis message = ns_Encode ns (segmentFields p\<lparr>tf_Checksum := ?ck\<rparr>) @ tp_payload p"
    by (simp add: assms(2) marshallTCPPacket_def Let_def)
  have "slice_from message 20 = Inr \<lparr>vis = tp_payload p, spare = spare message\<rparr>"
    by (simp add: slice_from_def slice_len_def m len)
  moreover have "segmentFields p\<lparr>tf_Checksum := 0\<rparr> = segmentFields p" by (simp add: segmentFields_def)
  ultimately show ?thesis
    using ParseTCPHeader_marshalled [OF assms(1), of p] assms(3,4)
    by (simp add: protocol6_def assms(2) segmentInfo_def) (simp add: segmentFields_def)
qed

text \<open>Such a packet hands the segment to the TCP stack, through the IP layer and \<open>protocol6\<close>.\<close>

lemma segment_to_stack:
  assumes "netstack_codec ns" "netstack_checksum ns"
    and "tp_sourceIp p = Addr4 s" "tp_destIp p = Addr4 d" "1 \<le> ttl" "ttl < 256" "40 + length (tp_payload p) < 65536"
    and "makePacket ns (Addr4 s) (Addr4 d) 6 ttl (marshallTCPPacket ns p) = Inr pkt"
    and "packet_checksum ns s d 6 ttl (20 + length (tp_payload p)) \<noteq> 0"
    and "checkDest node (Addr4 d)" "map_of (n_handlerTable node) 6 = Some Protocol6"
  shows "handlePackets ns now node \<lparr>vis = pkt, spare = sp\<rparr> = Inr (node, [ToTCP (segmentInfo (n_IpAddr node) p)])"
proof -
  let ?data = "marshallTCPPacket ns p"
  have len: "length ?data = 20 + length (tp_payload p)"
    using assms(1) by (simp add: marshallTCPPacket_def netstack_codec_def Let_def)
  have "pkt = header20 s d 6 ttl (length ?data) (packet_checksum ns s d 6 ttl (length ?data)) @ ?data"
    using assms(8) by (simp add: makePacket_eq)
  moreover have "protocol6 ns node \<lparr>vis = ?data, spare = sp\<rparr>
      (makeHeader (Addr4 s) (Addr4 d) 6 (ttl - 1) (length ?data)\<lparr>h_Checksum := c\<rparr>) =
      Inr [ToTCP (segmentInfo (n_IpAddr node) p)]" for c
    using assms(1,3,4) by (intro protocol6_marshalled) (simp_all add: makeHeader_def)
  ultimately show ?thesis
    using handlePackets_header20 [OF assms(2) _ _ assms(5,6) _ refl _ refl, of 6 ?data s d now node sp] assms(7,9-11) len
    by (simp add: callHandler_def)
qed

definition ex_segment :: TCPPacket where
  "ex_segment = \<lparr>tp_sourceIp = Addr4 0x0a000002, tp_destIp = Addr4 0x0a000001, tp_payload = [104, 105], tp_flags = 16,
     tp_sourcePort = 20000, tp_destPort = 9999, tp_seqNum = 5001, tp_ackNum = 6001, tp_window = 65535\<rparr>"

definition ex_host :: Node where
  "ex_host = ex_router [(''if0'', ex_iface ''if0'' 0x0a000001 0x0a000000)] []\<lparr>n_handlerTable := [(6, Protocol6)]\<rparr>"

section \<open>The registry of sockets\<close>

text \<open>The lookup of a socket by its identifier, as every command of the REPL does it.\<close>

definition lookupSID :: "TCPStack \<Rightarrow> u16 \<Rightarrow> Socket option" where
  "lookupSID t sid =
     (case map_of (ts_SID_to_sk t) sid of None \<Rightarrow> None | Some sk \<Rightarrow> map_of (ts_SocketTable t) sk)"

fun socket_at :: "SocketTableKey \<Rightarrow> Socket \<Rightarrow> bool" where
  "socket_at sk (Listen l) \<longleftrightarrow> sk = listenKey (ls_localPort l)"
| "socket_at sk (Normal s) \<longleftrightarrow> sk = so_key s \<and> sk_RemoteAddr sk \<noteq> AddrZero"

definition stack_ok :: "TCPStack \<Rightarrow> bool" where
  "stack_ok t \<longleftrightarrow> distinct (map fst (ts_SocketTable t)) \<and> distinct (map fst (ts_SID_to_sk t)) \<and>
     (\<forall>sk s. map_of (ts_SocketTable t) sk = Some s \<longrightarrow> socket_at sk s \<and> map_of (ts_SID_to_sk t) (getSID s) = Some sk) \<and>
     (\<forall>sid sk. map_of (ts_SID_to_sk t) sid = Some sk \<longrightarrow>
        (\<exists>s. map_of (ts_SocketTable t) sk = Some s \<and> getSID s = sid) \<and> sid < ts_SID t)"

text \<open>
  A registry: identifiers are handed out once, a new socket is found under its identifier, a
  closed one no longer, and every other socket stays where it was.
\<close>

locale registry =
  fixes inv :: "'t \<Rightarrow> bool"
    and lookup :: "'t \<Rightarrow> 'id \<Rightarrow> 's option"
    and next_id :: "'t \<Rightarrow> 'id"
    and ident :: "'s \<Rightarrow> 'id"
    and may_add :: "'t \<Rightarrow> 'k \<Rightarrow> 's \<Rightarrow> bool"
    and add :: "'t \<Rightarrow> 'k \<Rightarrow> 's \<Rightarrow> 't"
    and del :: "'t \<Rightarrow> 's \<Rightarrow> 't"
  assumes add_inv: "inv t \<Longrightarrow> may_add t k s \<Longrightarrow> inv (add t k s)"
    and add_lookup: "inv t \<Longrightarrow> may_add t k s \<Longrightarrow> lookup (add t k s) = (lookup t)(next_id t \<mapsto> s)"
    and fresh: "inv t \<Longrightarrow> lookup t (next_id t) = None"
    and may_add_ident: "may_add t k s \<Longrightarrow> ident s = next_id t"
    and lookup_ident: "inv t \<Longrightarrow> lookup t i = Some s \<Longrightarrow> ident s = i"
    and del_inv: "inv t \<Longrightarrow> lookup t (ident s) \<noteq> None \<Longrightarrow> inv (del t s)"
    and del_lookup: "inv t \<Longrightarrow> lookup t (ident s) \<noteq> None \<Longrightarrow> lookup (del t s) = (lookup t)(ident s := None)"
begin

lemma add_found: "inv t \<Longrightarrow> may_add t k s \<Longrightarrow> lookup (add t k s) (ident s) = Some s"
  by (simp add: add_lookup may_add_ident)

lemma add_del: "inv t \<Longrightarrow> may_add t k s \<Longrightarrow> lookup (del (add t k s) s) = lookup t"
  using fresh [of t] by (auto simp: del_lookup add_inv add_lookup may_add_ident fun_eq_iff)

lemma add_del_inv: "inv t \<Longrightarrow> may_add t k s \<Longrightarrow> inv (del (add t k s) s)"
  by (simp add: del_inv add_inv add_found)

lemma add_keeps: "inv t \<Longrightarrow> may_add t k s \<Longrightarrow> lookup t i = Some u \<Longrightarrow> lookup (add t k s) i = Some u"
  using fresh [of t] by (auto simp: add_lookup)

lemma del_keeps:
  "inv t \<Longrightarrow> lookup t (ident s) \<noteq> None \<Longrightarrow> lookup t i = Some u \<Longrightarrow> i \<noteq> ident s \<Longrightarrow> lookup (del t s) i = Some u"
  by (simp add: del_lookup)

end

definition may_open :: "TCPStack \<Rightarrow> SocketTableKey \<Rightarrow> Socket \<Rightarrow> bool" where
  "may_open t sk s \<longleftrightarrow> map_of (ts_SocketTable t) sk = None \<and> socket_at sk s \<and> getSID s = ts_SID t \<and> ts_SID t \<noteq> 0xffff"

lemma stack_okD:
  assumes "stack_ok t"
  shows "map_of (ts_SocketTable t) sk = Some s \<Longrightarrow> socket_at sk s"
    and "map_of (ts_SocketTable t) sk = Some s \<Longrightarrow> map_of (ts_SID_to_sk t) (getSID s) = Some sk"
    and "map_of (ts_SID_to_sk t) sid = Some sk \<Longrightarrow> \<exists>s. map_of (ts_SocketTable t) sk = Some s \<and> getSID s = sid"
    and "map_of (ts_SID_to_sk t) sid = Some sk \<Longrightarrow> sid < ts_SID t"
  using assms by (auto simp: stack_ok_def)

lemma SID_fresh: "stack_ok t \<Longrightarrow> map_of (ts_SID_to_sk t) (ts_SID t) = None"
  by (cases "map_of (ts_SID_to_sk t) (ts_SID t)") (auto dest: stack_okD(4))

lemma lookupSID_SID: "stack_ok t \<Longrightarrow> lookupSID t i = Some s \<Longrightarrow> getSID s = i"
  by (auto simp: lookupSID_def split: option.splits dest: stack_okD(3))

lemma less_SID_Suc: "ts_SID t \<noteq> 0xffff \<Longrightarrow> x < ts_SID t \<Longrightarrow> x < ts_SID t + 1"
  and SID_less_Suc: "ts_SID t \<noteq> 0xffff \<Longrightarrow> ts_SID t < ts_SID t + 1"
proof -
  assume n: "ts_SID t \<noteq> 0xffff"
  have "unat (ts_SID t) \<noteq> 65535" using n by (auto simp: word_unat_eq_iff)
  then have "unat (ts_SID t) + 1 < 65536" using unat_u16_less [of "ts_SID t"] by linarith
  then have "unat (ts_SID t + 1) = unat (ts_SID t) + 1" by (simp add: unat_word_ariths)
  then show "ts_SID t < ts_SID t + 1" and "x < ts_SID t \<Longrightarrow> x < ts_SID t + 1"
    by (simp_all add: word_less_nat_alt)
qed

lemma stack_ok_add:
  assumes "stack_ok t" "may_open t sk s"
  shows "stack_ok (addSocket t sk s)"
proof -
  have new: "map_of (ts_SocketTable t) sk = None" "map_of (ts_SID_to_sk t) (ts_SID t) = None"
      "socket_at sk s" "getSID s = ts_SID t" "ts_SID t \<noteq> 0xffff"
    using assms SID_fresh [OF assms(1)] by (simp_all add: may_open_def)
  have "map_of (ts_SID_to_sk t) sid \<noteq> Some sk" for sid
    using stack_okD(3) [OF assms(1), of sid sk] new(1) by auto
  moreover have "getSID s' \<noteq> ts_SID t" if "map_of (ts_SocketTable t) k = Some s'" for k s'
    using stack_okD(2) [OF assms(1) that] new(2) by auto
  ultimately show ?thesis
    using assms(1) new less_SID_Suc [OF new(5)] SID_less_Suc [OF new(5)]
    unfolding stack_ok_def addSocket_def
    by (auto simp: distinct_update update_conv')
qed

lemma deleteTCB_eq:
  assumes "stack_ok t" "lookupSID t (getSID s) = Some u"
  obtains sk where "map_of (ts_SID_to_sk t) (getSID s) = Some sk" "map_of (ts_SocketTable t) sk = Some u"
    and "deleteTCB t s = t\<lparr>ts_SocketTable := AList.delete sk (ts_SocketTable t),
      ts_SID_to_sk := AList.delete (getSID s) (ts_SID_to_sk t)\<rparr>"
proof (cases "map_of (ts_SID_to_sk t) (getSID s)")
  case None
  with assms(2) show ?thesis by (simp add: lookupSID_def)
next
  case (Some sk)
  with assms(2) that [of sk] show ?thesis by (simp add: lookupSID_def deleteTCB_def)
qed

lemma stack_ok_del:
  assumes "stack_ok t" "lookupSID t (getSID s) \<noteq> None"
  shows "stack_ok (deleteTCB t s)"
proof -
  obtain u where "lookupSID t (getSID s) = Some u" using assms(2) by blast
  from deleteTCB_eq [OF assms(1) this] obtain sk where sk: "map_of (ts_SID_to_sk t) (getSID s) = Some sk"
    and d: "deleteTCB t s = t\<lparr>ts_SocketTable := AList.delete sk (ts_SocketTable t),
      ts_SID_to_sk := AList.delete (getSID s) (ts_SID_to_sk t)\<rparr>" .
  have "sid = getSID s" if "map_of (ts_SID_to_sk t) sid = Some sk" for sid
    using stack_okD(3) [OF assms(1) that] stack_okD(3) [OF assms(1) sk] by auto
  moreover have "k = sk" if "map_of (ts_SocketTable t) k = Some s'" "getSID s' = getSID s" for k s'
    using stack_okD(2) [OF assms(1) that(1)] that(2) sk by simp
  note uniq = calculation this
  show ?thesis
    unfolding stack_ok_def
  proof (intro conjI allI impI)
    fix k s'
    assume "map_of (ts_SocketTable (deleteTCB t s)) k = Some s'"
    then have k: "map_of (ts_SocketTable t) k = Some s'" "k \<noteq> sk" by (simp_all add: d delete_conv' split: if_splits)
    show "socket_at k s'" by (rule stack_okD(1) [OF assms(1) k(1)])
    show "map_of (ts_SID_to_sk (deleteTCB t s)) (getSID s') = Some k"
      using stack_okD(2) [OF assms(1) k(1)] uniq(2) [OF k(1)] k(2) by (auto simp: d delete_conv')
  next
    fix sid k
    assume "map_of (ts_SID_to_sk (deleteTCB t s)) sid = Some k"
    then have k: "map_of (ts_SID_to_sk t) sid = Some k" "sid \<noteq> getSID s" by (simp_all add: d delete_conv' split: if_splits)
    then have "k \<noteq> sk" using uniq(1) by blast
    with stack_okD(3) [OF assms(1) k(1)] show "\<exists>s'. map_of (ts_SocketTable (deleteTCB t s)) k = Some s' \<and> getSID s' = sid"
      by (simp add: d delete_conv')
    show "sid < ts_SID (deleteTCB t s)" using stack_okD(4) [OF assms(1) k(1)] by (simp add: d)
  qed (use assms(1) in \<open>simp_all add: d stack_ok_def distinct_delete\<close>)
qed

lemma lookupSID_add:
  assumes "stack_ok t" "may_open t sk s"
  shows "lookupSID (addSocket t sk s) = (lookupSID t)(ts_SID t \<mapsto> s)"
proof
  fix i
  have "map_of (ts_SID_to_sk t) i \<noteq> Some sk"
    using stack_okD(3) [OF assms(1), of i sk] assms(2) by (auto simp: may_open_def)
  then show "lookupSID (addSocket t sk s) i = ((lookupSID t)(ts_SID t \<mapsto> s)) i"
    by (simp add: lookupSID_def addSocket_def update_conv' split: option.split)
qed

lemma lookupSID_del:
  assumes "stack_ok t" "lookupSID t (getSID s) \<noteq> None"
  shows "lookupSID (deleteTCB t s) = (lookupSID t)(getSID s := None)"
proof
  fix i
  obtain u where "lookupSID t (getSID s) = Some u" using assms(2) by blast
  from deleteTCB_eq [OF assms(1) this] obtain sk where sk: "map_of (ts_SID_to_sk t) (getSID s) = Some sk"
    and d: "deleteTCB t s = t\<lparr>ts_SocketTable := AList.delete sk (ts_SocketTable t),
      ts_SID_to_sk := AList.delete (getSID s) (ts_SID_to_sk t)\<rparr>" .
  have "i = getSID s" if "map_of (ts_SID_to_sk t) i = Some sk"
    using stack_okD(3) [OF assms(1) that] stack_okD(3) [OF assms(1) sk] by auto
  then show "lookupSID (deleteTCB t s) i = ((lookupSID t)(getSID s := None)) i"
    unfolding d by (auto simp: lookupSID_def delete_conv' split: option.split)
qed

interpretation sockets: registry stack_ok lookupSID ts_SID getSID may_open addSocket deleteTCB
proof
  show "lookupSID t (ts_SID t) = None" if "stack_ok t" for t
    using SID_fresh [OF that] by (simp add: lookupSID_def)
qed (simp_all add: stack_ok_add lookupSID_add stack_ok_del lookupSID_del lookupSID_SID may_open_def)

text \<open>
  C33. The two tables of the stack stay each other's inverse: entering a socket under a free
  key (with identifiers left) and deleting one keep the invariant; a new socket is found under
  its identifier, a deleted one is gone, all others are found as before, and deleting what was
  just entered restores every lookup.
\<close>

theorem socket_registry:
  assumes "stack_ok t"
  shows "(may_open t sk s \<longrightarrow> stack_ok (addSocket t sk s) \<and> lookupSID (addSocket t sk s) = (lookupSID t)(getSID s \<mapsto> s) \<and>
      lookupSID (deleteTCB (addSocket t sk s) s) = lookupSID t) \<and>
    (lookupSID t (getSID s) \<noteq> None \<longrightarrow>
      stack_ok (deleteTCB t s) \<and> lookupSID (deleteTCB t s) = (lookupSID t)(getSID s := None))"
  using sockets.add_inv [OF assms, of sk s] sockets.add_lookup [OF assms, of sk s] sockets.add_del [OF assms, of sk s]
    sockets.may_add_ident [of t sk s] sockets.del_inv [OF assms, of s] sockets.del_lookup [OF assms, of s]
  by auto

definition ex_stack :: TCPStack where
  "ex_stack = \<lparr>ts_SocketTable = [], ts_ip = Addr4 0x0a000001, ts_SID_to_sk = [], ts_SID = 0\<rparr>"

lemma ex_stack_ok: "stack_ok ex_stack"
  by (simp add: ex_stack_def stack_ok_def)

theorem socket_registry_witness:
  "lookupSID (deleteTCB (addSocket ex_stack (listenKey 80) (Listen \<lparr>ls_localPort = 80, ls_SID = 0\<rparr>))
     (Listen \<lparr>ls_localPort = 80, ls_SID = 0\<rparr>)) = lookupSID ex_stack"
proof -
  have "may_open ex_stack (listenKey 80) (Listen \<lparr>ls_localPort = 80, ls_SID = 0\<rparr>)"
    by (simp add: may_open_def ex_stack_def)
  with socket_registry [OF ex_stack_ok] show ?thesis by blast
qed

section \<open>Listening and demultiplexing\<close>

text \<open>
  \<open>VListen\<close> on a port refuses exactly when the port is taken, and then changes nothing;
  otherwise the listener is registered, the invariant kept, and from then on segments for the
  port that belong to no connection reach it.
\<close>

theorem VListen_correct:
  assumes "stack_ok t" "ts_SID t \<noteq> 0xffff"
  shows "case VListen t port of
      Inl e \<Rightarrow> map_of (ts_SocketTable t) (listenKey port) \<noteq> None
    | Inr (t', l) \<Rightarrow> map_of (ts_SocketTable t) (listenKey port) = None \<and> stack_ok t' \<and>
        lookupSID t' = (lookupSID t)(ls_SID l \<mapsto> Listen l) \<and>
        (\<forall>r. sk_RemotePort (ti_key r) = port \<and> sk_LocalAddr (ti_key r) \<noteq> AddrZero \<and>
           map_of (ts_SocketTable t) (flipSocketKeyFields (ti_key r)) = None \<longrightarrow> demux t' r = Inr (ToListener (listenKey port)))"
proof (cases "map_of (ts_SocketTable t) (listenKey port)")
  case None
  let ?l = "\<lparr>ls_localPort = port, ls_SID = ts_SID t\<rparr>"
  have "may_open t (listenKey port) (Listen ?l)" using None assms(2) by (simp add: may_open_def)
  then have "stack_ok (addSocket t (listenKey port) (Listen ?l))"
      "lookupSID (addSocket t (listenKey port) (Listen ?l)) = (lookupSID t)(ts_SID t \<mapsto> Listen ?l)"
    using assms(1) by (simp_all add: stack_ok_add lookupSID_add)
  moreover have "flipSocketKeyFields (ti_key r) \<noteq> listenKey port" if "sk_LocalAddr (ti_key r) \<noteq> AddrZero" for r :: TCPInfo
    using that by (simp add: flipSocketKeyFields_def listenKey_def)
  ultimately show ?thesis using None by (simp add: VListen_def demux_def addSocket_def update_conv' Let_def)
qed (simp add: VListen_def)

lemma demux_cases:
  assumes "stack_ok t" "sk_LocalAddr (ti_key r) \<noteq> AddrZero"
  shows "demux t r = Inr
    (case map_of (ts_SocketTable t) (flipSocketKeyFields (ti_key r)) of
       Some (Normal s) \<Rightarrow>
         if so_state s \<noteq> SYN_RECEIVED then ToNormal (flipSocketKeyFields (ti_key r))
         else if map_of (ts_SocketTable t) (listenKey (sk_RemotePort (ti_key r))) = None then Ignored
         else ToListener (listenKey (sk_RemotePort (ti_key r)))
     | _ \<Rightarrow> if map_of (ts_SocketTable t) (listenKey (sk_RemotePort (ti_key r))) = None then Ignored
         else ToListener (listenKey (sk_RemotePort (ti_key r))))"
proof -
  have "\<not> (\<exists>l. map_of (ts_SocketTable t) (flipSocketKeyFields (ti_key r)) = Some (Listen l))"
    using stack_okD(1) [OF assms(1)] assms(2) by (force simp: flipSocketKeyFields_def listenKey_def)
  moreover have "\<not> (\<exists>s. map_of (ts_SocketTable t) (listenKey port) = Some (Normal s))" for port
    using stack_okD(1) [OF assms(1)] by (force simp: listenKey_def)
  ultimately show ?thesis by (auto simp: demux_def Let_def split: option.splits Socket.splits)
qed

text \<open>
  C34. The demultiplexer never fails on a type assertion: a segment from an IPv4 source goes to
  the connection it belongs to unless that is still in the handshake, else to the listener of
  its port, else nowhere.
\<close>

theorem demux_total:
  assumes "stack_ok t" "sk_LocalAddr (ti_key r) \<noteq> AddrZero"
  shows "demux t r = Inr
    (case map_of (ts_SocketTable t) (flipSocketKeyFields (ti_key r)) of
       Some (Normal s) \<Rightarrow>
         if so_state s \<noteq> SYN_RECEIVED then ToNormal (flipSocketKeyFields (ti_key r))
         else if map_of (ts_SocketTable t) (listenKey (sk_RemotePort (ti_key r))) = None then Ignored
         else ToListener (listenKey (sk_RemotePort (ti_key r)))
     | _ \<Rightarrow> if map_of (ts_SocketTable t) (listenKey (sk_RemotePort (ti_key r))) = None then Ignored
         else ToListener (listenKey (sk_RemotePort (ti_key r))))"
  using assms by (rule demux_cases)

definition ex_info :: TCPInfo where
  "ex_info = segmentInfo (Addr4 0x0a000001) ex_segment"

theorem VListen_correct_witness:
  "\<exists>t' l. VListen ex_stack 9999 = Inr (t', l) \<and> stack_ok t' \<and> demux t' ex_info = Inr (ToListener (listenKey 9999))"
proof -
  have "map_of (ts_SocketTable ex_stack) k = None" for k by (simp add: ex_stack_def)
  with VListen_correct [OF ex_stack_ok, of 9999] show ?thesis
    by (auto simp: VListen_def ex_stack_def ex_info_def segmentInfo_def ex_segment_def Let_def)
qed

theorem demux_total_witness: "demux ex_stack ex_info = Inr Ignored"
  using demux_total [OF ex_stack_ok, of ex_info]
  by (simp add: ex_stack_def ex_info_def segmentInfo_def ex_segment_def)

end
