(* ===== verification/Tcp_Handshake.thy ===== *)
theory Tcp_Handshake
  imports Tcp_Stack
begin

text \<open>
  \<open>pkg/tcpstack/tcpstack.go\<close>, second part: \<open>VConnect\<close> and \<open>VAccept\<close>. What the goroutines
  wait for is an argument: the ports \<open>math/rand\<close> draws, the segments and timeouts that arrive;
  a call that would still be waiting at the end of its input says so. The two sides of a
  handshake are shown to agree on the connection.
\<close>

section \<open>Sockets\<close>

definition newReadBuffer :: ReadBuffer where
  "newReadBuffer = \<lparr>rb_buffer = replicate 65536 0, rb_LBR = 0, rb_NXT = 1\<rparr>"

definition newWriteBuffer :: WriteBuffer where
  "newWriteBuffer = \<lparr>wb_buffer = replicate 65536 0, wb_UNA = 1, wb_NXT = 1, wb_LBW = 0\<rparr>"

definition connectingSocket :: "u16 \<Rightarrow> SocketTableKey \<Rightarrow> NormalSocket" where
  "connectingSocket sid sk = \<lparr>so_SID = sid, so_readBuffer = None, so_writeBuffer = None, so_state = SYN_SENT,
     so_stateMtx = False, so_baseSeq = 0, so_baseAck = 0, so_ClientWindowSize = 0, so_unackedNums = [],
     so_unackedFINs = [], so_unackedMtx = False, so_earlyPQ = [], so_index = 0, so_key = sk, so_RTO = RTO_MIN,
     so_SRTT = -1, so_cumWriteUNA = 0, so_cumReadNXT = 0, so_notFirstWrite = False\<rparr>"

definition MAX_WINDOW :: u16 where
  "MAX_WINDOW = ucast (WINDOW_SIZE - 1)"

section \<open>Connecting\<close>

text \<open>
  The port is \<open>rand.Intn(65535-20000) + 20000\<close>, drawn until it is not listened on.
\<close>

fun pickPort :: "TCPStack \<Rightarrow> nat list \<Rightarrow> u16 option" where
  "pickPort t [] = None"
| "pickPort t (r # rs) =
     (let randSrcPort = of_nat (r mod (65535 - 20000) + 20000)
      in if map_of (ts_SocketTable t) (listenKey randSrcPort) = None then Some randSrcPort else pickPort t rs)"

definition synPacket :: "netstack \<Rightarrow> Addr \<Rightarrow> Addr \<Rightarrow> u16 \<Rightarrow> u16 \<Rightarrow> TCPPacket" where
  "synPacket ns ip destAddr srcPort destPort =
     \<lparr>tp_sourceIp = ip, tp_destIp = destAddr, tp_payload = [], tp_flags = ns_FlagSyn ns, tp_sourcePort = srcPort,
      tp_destPort = destPort, tp_seqNum = 5000, tp_ackNum = 0, tp_window = MAX_WINDOW\<rparr>"

definition ackPacket :: "netstack \<Rightarrow> Addr \<Rightarrow> Addr \<Rightarrow> u16 \<Rightarrow> u16 \<Rightarrow> TCPInfo \<Rightarrow> TCPPacket" where
  "ackPacket ns ip destAddr srcPort destPort ci =
     \<lparr>tp_sourceIp = ip, tp_destIp = destAddr, tp_payload = [], tp_flags = ns_FlagAck ns, tp_sourcePort = srcPort,
      tp_destPort = destPort, tp_seqNum = ti_AckNum ci, tp_ackNum = ti_SeqNum ci + 1, tp_window = MAX_WINDOW\<rparr>"

datatype event = Arrive TCPInfo | Timeout

datatype reply = Answered TCPInfo | GaveUp | StillWaiting

text \<open>Each turn of the loop sends the segment and waits for an event; three turns at most.\<close>

fun connect_loop :: "netstack \<Rightarrow> Node \<Rightarrow> Addr \<Rightarrow> bytes \<Rightarrow> nat \<Rightarrow> event list \<Rightarrow> (effect list \<times> reply) res" where
  "connect_loop ns n destAddr packet i [] =
     bindr (HandleSend ns n destAddr packet 6) (\<lambda>es. Inr (es, StillWaiting))"
| "connect_loop ns n destAddr packet i (Timeout # evs) =
     bindr (HandleSend ns n destAddr packet 6) (\<lambda>es.
       let es' = es @ [Print (''try num: '' @ show_nat (Suc i))]
       in if Suc i = 3 then Inr (es', GaveUp)
          else bindr (connect_loop ns n destAddr packet (Suc i) evs) (\<lambda>(fs, r). Inr (es' @ fs, r)))"
| "connect_loop ns n destAddr packet i (Arrive ci # evs) =
     bindr (HandleSend ns n destAddr packet 6) (\<lambda>es.
       if ti_Flag ci = SYNACK ns then Inr (es, Answered ci)
       else if Suc i = 3 then Inr (es, GaveUp)
       else bindr (connect_loop ns n destAddr packet (Suc i) evs) (\<lambda>(fs, r). Inr (es @ fs, r)))"

definition connectedSocket :: "NormalSocket \<Rightarrow> TCPInfo \<Rightarrow> NormalSocket" where
  "connectedSocket sock ci = sock\<lparr>so_readBuffer := Some newReadBuffer, so_writeBuffer := Some newWriteBuffer,
     so_baseAck := ti_SeqNum ci, so_baseSeq := ti_AckNum ci - 1, so_unackedNums := [], so_earlyPQ := [], so_index := 0,
     so_unackedFINs := [], so_unackedMtx := False, so_stateMtx := False, so_state := ESTABLISHED,
     so_cumReadNXT := ti_SeqNum ci + 1, so_cumWriteUNA := ti_AckNum ci, so_ClientWindowSize := ti_WindowSize ci\<rparr>"

datatype connection = Connected NormalSocket | CouldNotConnect | Pending

definition VConnect ::
  "netstack \<Rightarrow> Node \<Rightarrow> TCPStack \<Rightarrow> Addr \<Rightarrow> u16 \<Rightarrow> nat list \<Rightarrow> event list \<Rightarrow> (TCPStack \<times> effect list \<times> connection) option res" where
  "VConnect ns n t destAddr destPort draws events =
     (case pickPort t draws of
        None \<Rightarrow> Inr None
      | Some randSrcPort \<Rightarrow>
          let sk = \<lparr>sk_LocalAddr = ts_ip t, sk_LocalPort = randSrcPort, sk_RemoteAddr = destAddr, sk_RemotePort = destPort\<rparr>;
              newSocket = connectingSocket (ts_SID t) sk;
              t1 = addSocket t sk (Normal newSocket);
              packet = marshallTCPPacket ns (synPacket ns (ts_ip t) destAddr randSrcPort destPort)
          in bindr (connect_loop ns n destAddr packet 0 events) (\<lambda>(es, r).
               case r of
                 StillWaiting \<Rightarrow> Inr (Some (t1, es, Pending))
               | GaveUp \<Rightarrow> Inr (Some (deleteTCB t1 (Normal newSocket), es, CouldNotConnect))
               | Answered ci \<Rightarrow>
                   let sock = connectedSocket newSocket ci;
                       t2 = t1\<lparr>ts_SocketTable := AList.update sk (Normal sock) (ts_SocketTable t1)\<rparr>;
                       packet' = marshallTCPPacket ns (ackPacket ns (ts_ip t) destAddr randSrcPort destPort ci)
                   in bindr (HandleSend ns n destAddr packet' 6) (\<lambda>fs. Inr (Some (t2, es @ fs, Connected sock)))))"

section \<open>Accepting\<close>

definition acceptingSocket :: "u16 \<Rightarrow> SocketTableKey \<Rightarrow> TCPInfo \<Rightarrow> NormalSocket" where
  "acceptingSocket sid newSK ci = (connectingSocket sid newSK)\<lparr>so_readBuffer := Some newReadBuffer,
     so_writeBuffer := Some newWriteBuffer, so_state := SYN_RECEIVED, so_baseAck := ti_SeqNum ci,
     so_ClientWindowSize := MAX_WINDOW, so_baseSeq := 6000, so_cumReadNXT := ti_SeqNum ci + 1,
     so_cumWriteUNA := 6000 + 1\<rparr>"

definition synackPacket :: "netstack \<Rightarrow> TCPInfo \<Rightarrow> TCPPacket" where
  "synackPacket ns ci =
     \<lparr>tp_sourceIp = sk_RemoteAddr (ti_key ci), tp_destIp = sk_LocalAddr (ti_key ci), tp_payload = [],
      tp_flags = SYNACK ns, tp_sourcePort = sk_RemotePort (ti_key ci), tp_destPort = sk_LocalPort (ti_key ci),
      tp_seqNum = 6000, tp_ackNum = ti_SeqNum ci + 1, tp_window = MAX_WINDOW\<rparr>"

text \<open>Reading \<open>listenChan\<close> until a segment with the flag arrives for the port.\<close>

definition waitFor :: "u8 \<Rightarrow> u16 \<Rightarrow> TCPInfo list \<Rightarrow> TCPInfo list" where
  "waitFor flag port arrivals = dropWhile (\<lambda>ci. \<not> (ti_Flag ci = flag \<and> sk_RemotePort (ti_key ci) = port)) arrivals"

definition VAccept ::
  "netstack \<Rightarrow> Node \<Rightarrow> TCPStack \<Rightarrow> ListenSocket \<Rightarrow> TCPInfo list \<Rightarrow> (TCPStack \<times> effect list \<times> connection) res" where
  "VAccept ns n t lsock arrivals =
     (case waitFor (ns_FlagSyn ns) (ls_localPort lsock) arrivals of
        [] \<Rightarrow> Inr (t, [], Pending)
      | ci # rest \<Rightarrow>
          let newSK = flipSocketKeyFields (ti_key ci);
              newSocket = acceptingSocket (ts_SID t) newSK ci;
              t1 = addSocket t newSK (Normal newSocket)
          in bindr (HandleSend ns n (sk_LocalAddr (ti_key ci)) (marshallTCPPacket ns (synackPacket ns ci)) 6) (\<lambda>es.
               case waitFor (ns_FlagAck ns) (ls_localPort lsock) (ci # rest) of
                 [] \<Rightarrow> Inr (t1, es, Pending)
               | ci' # _ \<Rightarrow>
                   let sock = newSocket\<lparr>so_state := ESTABLISHED, so_ClientWindowSize := ti_WindowSize ci'\<rparr>
                   in Inr (t1\<lparr>ts_SocketTable := AList.update newSK (Normal sock) (ts_SocketTable t1)\<rparr>, es, Connected sock)))"

section \<open>Retrying\<close>

fun first_synack :: "netstack \<Rightarrow> event list \<Rightarrow> TCPInfo option" where
  "first_synack ns [] = None"
| "first_synack ns (Timeout # evs) = first_synack ns evs"
| "first_synack ns (Arrive ci # evs) = (if ti_Flag ci = SYNACK ns then Some ci else first_synack ns evs)"

definition connect_reply :: "netstack \<Rightarrow> nat \<Rightarrow> event list \<Rightarrow> reply" where
  "connect_reply ns k events =
     (case first_synack ns (take k events) of
        Some ci \<Rightarrow> Answered ci
      | None \<Rightarrow> if k \<le> length events then GaveUp else StillWaiting)"

lemma connect_loop_reply:
  assumes "HandleSend ns n dest packet 6 = Inr es" "i < 3"
  shows "\<exists>fs. connect_loop ns n dest packet i events = Inr (fs, connect_reply ns (3 - i) events)"
  using assms(2)
proof (induction events arbitrary: i)
  case Nil
  then show ?case using assms(1) by (simp add: connect_reply_def)
next
  case (Cons ev evs)
  have k: "3 - i = Suc (3 - Suc i)" using Cons.prems by simp
  show ?case
  proof (cases "Suc i = 3")
    case True
    with Cons.prems show ?thesis
      using assms(1) by (cases ev) (auto simp: connect_reply_def Let_def)
  next
    case False
    with Cons.IH [of "Suc i"] Cons.prems obtain fs where
      "connect_loop ns n dest packet (Suc i) evs = Inr (fs, connect_reply ns (3 - Suc i) evs)" by auto
    with False show ?thesis
      using assms(1) by (cases ev) (auto simp: connect_reply_def Let_def k)
  qed
qed

text \<open>
  C35. \<open>VConnect\<close> does not wait for ever: within three events (segments or timeouts) it has
  either taken the first SYN+ACK among them as the answer or given up; it gives up exactly
  when none of the first three events is one.
\<close>

theorem connect_decides:
  assumes "HandleSend ns n dest packet 6 = Inr es"
  shows "\<exists>fs r. connect_loop ns n dest packet 0 events = Inr (fs, r) \<and>
    (r = StillWaiting \<longleftrightarrow> length events < 3 \<and> first_synack ns events = None) \<and>
    (r = GaveUp \<longleftrightarrow> 3 \<le> length events \<and> first_synack ns (take 3 events) = None) \<and>
    (\<forall>ci. r = Answered ci \<longleftrightarrow> first_synack ns (take 3 events) = Some ci)"
proof -
  obtain fs where "connect_loop ns n dest packet 0 events = Inr (fs, connect_reply ns 3 events)"
    using connect_loop_reply [OF assms, of 0 events] by auto
  then show ?thesis by (auto simp: connect_reply_def split: option.split)
qed

text \<open>Two hosts on 10.0.0.0/24, at addresses \<open>ip\<close> and \<open>peer\<close>.\<close>

definition lan_host :: "u32 \<Rightarrow> u32 \<Rightarrow> Node" where
  "lan_host ip peer =
     (let nb = \<lparr>nc_DestAddr = Addr4 peer, nc_UDPAddr = \<lparr>ap_Addr = Addr4 0x7f000001, ap_Port = 5001\<rparr>, nc_InterfaceName = ''if0''\<rparr>
      in \<lparr>n_neighbors = [nb], n_interfaces = [(''if0'', ex_iface ''if0'' ip 0x0a000000)],
          n_neighborTable = [(Addr4 peer, nb)], n_forwardingTable = [ex_route ''L'' 0x0a000000 24 ip],
          n_handlerTable = [(6, Protocol6)], n_ripNeighbors = [], n_IpAddr = Addr4 ip\<rparr>)"

lemma lan_host_sends:
  "\<exists>pkt. HandleSend ns (lan_host 0x0a000001 0x0a000002) (Addr4 0x0a000002) data 6 = Inr [ToInterface ''if0'' pkt (Addr4 0x0a000002)]"
  "\<exists>pkt. HandleSend ns (lan_host 0x0a000002 0x0a000001) (Addr4 0x0a000001) data 6 = Inr [ToInterface ''if0'' pkt (Addr4 0x0a000001)]"
  by (simp_all add: HandleSend_def FindNext_def checkDest_def lan_host_def ex_router_simps neighborUDP_def getNeighbor_def makePacket_eq Let_def)

theorem connect_decides_witness:
  "\<exists>fs. connect_loop ref_netstack (lan_host 0x0a000001 0x0a000002) (Addr4 0x0a000002) [] 0 [Timeout, Timeout, Timeout] = Inr (fs, GaveUp)"
proof -
  obtain pkt where "HandleSend ref_netstack (lan_host 0x0a000001 0x0a000002) (Addr4 0x0a000002) [] 6 = Inr [ToInterface ''if0'' pkt (Addr4 0x0a000002)]"
    using lan_host_sends(1) by blast
  from connect_decides [OF this, of "[Timeout, Timeout, Timeout]"] show ?thesis by (auto simp: numeral_3_eq_3)
qed

section \<open>A failed attempt leaves no trace\<close>

lemma AList_update_update: "AList.update k v (AList.update k w al) = AList.update k v al"
  by (induction al) auto

lemma connected_addSocket:
  "(addSocket t sk s)\<lparr>ts_SocketTable := AList.update sk s' (ts_SocketTable (addSocket t sk s))\<rparr> = addSocket t sk s'"
  by (simp add: addSocket_def AList_update_update)

lemma VConnect_open:
  assumes "VConnect ns n t destAddr destPort draws events = Inr (Some (t', es, c))" "pickPort t draws = Some port"
  defines "sk \<equiv> \<lparr>sk_LocalAddr = ts_ip t, sk_LocalPort = port, sk_RemoteAddr = destAddr, sk_RemotePort = destPort\<rparr>"
  defines "sock0 \<equiv> connectingSocket (ts_SID t) sk"
  shows "c = CouldNotConnect \<and> t' = deleteTCB (addSocket t sk (Normal sock0)) (Normal sock0) \<or>
    c = Pending \<and> t' = addSocket t sk (Normal sock0) \<or>
    (\<exists>ci. c = Connected (connectedSocket sock0 ci) \<and> t' = addSocket t sk (Normal (connectedSocket sock0 ci)))"
proof -
  let ?packet = "marshallTCPPacket ns (synPacket ns (ts_ip t) destAddr port destPort)"
  obtain es0 r where "connect_loop ns n destAddr ?packet 0 events = Inr (es0, r)"
    using assms(1,2) by (auto simp: VConnect_def Let_def bindr_eq_Inr)
  with assms(1,2) show ?thesis
    unfolding VConnect_def Let_def sk_def [symmetric] sock0_def
    by (cases r) (auto simp: bindr_eq_Inr connected_addSocket sk_def)
qed

lemma table_addSocket: "map_of (ts_SocketTable (addSocket t sk s)) = (map_of (ts_SocketTable t))(sk \<mapsto> s)"
  by (simp add: addSocket_def update_conv')

lemma map_of_add_delete:
  "getSID s = ts_SID t \<Longrightarrow> map_of (ts_SocketTable (deleteTCB (addSocket t sk s) s)) = (map_of (ts_SocketTable t))(sk := None)"
  by (simp add: deleteTCB_def addSocket_def update_conv' delete_conv' fun_eq_iff)

text \<open>The tables stay consistent when the key was free.\<close>

lemma VConnect_registry:
  assumes "stack_ok t" "ts_SID t \<noteq> 0xffff" "destAddr \<noteq> AddrZero" "pickPort t draws = Some port"
    and "map_of (ts_SocketTable t) \<lparr>sk_LocalAddr = ts_ip t, sk_LocalPort = port, sk_RemoteAddr = destAddr, sk_RemotePort = destPort\<rparr> = None"
    and "VConnect ns n t destAddr destPort draws events = Inr (Some (t', es, c))"
  shows "stack_ok t' \<and> (c = CouldNotConnect \<longrightarrow> lookupSID t' = lookupSID t) \<and>
    (\<forall>sock. c = Connected sock \<longrightarrow> lookupSID t' = (lookupSID t)(ts_SID t \<mapsto> Normal sock))"
proof -
  let ?sk = "\<lparr>sk_LocalAddr = ts_ip t, sk_LocalPort = port, sk_RemoteAddr = destAddr, sk_RemotePort = destPort\<rparr>"
  let ?sock = "connectingSocket (ts_SID t) ?sk"
  have may: "may_open t ?sk (Normal sock)" if "so_key sock = ?sk" "so_SID sock = ts_SID t" for sock
    using that assms(2,3,5) by (simp add: may_open_def)
  have m: "may_open t ?sk (Normal ?sock)" "may_open t ?sk (Normal (connectedSocket ?sock ci))" for ci
    by (rule may; simp add: connectingSocket_def connectedSocket_def)+
  from VConnect_open [OF assms(6,4)] show ?thesis
    using sockets.add_del [OF assms(1) m(1)] sockets.add_del_inv [OF assms(1) m(1)] stack_ok_add [OF assms(1) m(1)]
      stack_ok_add [OF assms(1) m(2)] lookupSID_add [OF assms(1) m(2)]
    by (elim disjE exE conjE) simp_all
qed

text \<open>
  C36. Connecting and the socket table. With the port it draws, \<open>VConnect\<close> takes the key of the
  connection without looking whether it is in use: a successful attempt enters the new,
  established socket there, a failed one leaves nothing there, whatever was there before, and no
  other key changes. If the key was free, both tables stay consistent; then a failed attempt
  restores every lookup by identifier, and a successful one adds exactly the new socket under the
  next identifier.
\<close>

theorem VConnect_table:
  assumes "VConnect ns n t destAddr destPort draws events = Inr (Some (t', es, c))" "pickPort t draws = Some port"
    and "sk = \<lparr>sk_LocalAddr = ts_ip t, sk_LocalPort = port, sk_RemoteAddr = destAddr, sk_RemotePort = destPort\<rparr>"
  shows "(c = CouldNotConnect \<longrightarrow> map_of (ts_SocketTable t') = (map_of (ts_SocketTable t))(sk := None)) \<and>
    (\<forall>sock. c = Connected sock \<longrightarrow> so_state sock = ESTABLISHED \<and>
       map_of (ts_SocketTable t') = (map_of (ts_SocketTable t))(sk \<mapsto> Normal sock)) \<and>
    (stack_ok t \<and> ts_SID t \<noteq> 0xffff \<and> destAddr \<noteq> AddrZero \<and> map_of (ts_SocketTable t) sk = None \<longrightarrow>
       stack_ok t' \<and> (c = CouldNotConnect \<longrightarrow> lookupSID t' = lookupSID t) \<and>
       (\<forall>sock. c = Connected sock \<longrightarrow> lookupSID t' = (lookupSID t)(ts_SID t \<mapsto> Normal sock)))"
proof -
  have "getSID (Normal (connectingSocket (ts_SID t) sk)) = ts_SID t" by (simp add: connectingSocket_def)
  note d = map_of_add_delete [OF this]
  from VConnect_open [OF assms(1,2)] have
    "(c = CouldNotConnect \<longrightarrow> map_of (ts_SocketTable t') = (map_of (ts_SocketTable t))(sk := None)) \<and>
     (\<forall>sock. c = Connected sock \<longrightarrow> so_state sock = ESTABLISHED \<and>
       map_of (ts_SocketTable t') = (map_of (ts_SocketTable t))(sk \<mapsto> Normal sock))"
    unfolding assms(3) [symmetric]
    by (elim disjE exE conjE) (simp_all add: d table_addSocket, simp add: connectedSocket_def)
  moreover have "stack_ok t' \<and> (c = CouldNotConnect \<longrightarrow> lookupSID t' = lookupSID t) \<and>
      (\<forall>sock. c = Connected sock \<longrightarrow> lookupSID t' = (lookupSID t)(ts_SID t \<mapsto> Normal sock))"
    if "stack_ok t" "ts_SID t \<noteq> 0xffff" "destAddr \<noteq> AddrZero" "map_of (ts_SocketTable t) sk = None"
    using that(1-3) assms(2) that(4) [unfolded assms(3)] assms(1) by (rule VConnect_registry)
  ultimately show ?thesis by simp
qed

lemma ex_connect_fails:
  "\<exists>t' es. VConnect ref_netstack (lan_host 0x0a000001 0x0a000002) ex_stack (Addr4 0x0a000002) 80 [7] [Timeout, Timeout, Timeout] =
     Inr (Some (t', es, CouldNotConnect))"
proof -
  let ?n = "lan_host 0x0a000001 0x0a000002"
  let ?p = "marshallTCPPacket ref_netstack (synPacket ref_netstack (ts_ip ex_stack) (Addr4 0x0a000002) 20007 80)"
  obtain pkt where "HandleSend ref_netstack ?n (Addr4 0x0a000002) ?p 6 = Inr [ToInterface ''if0'' pkt (Addr4 0x0a000002)]"
    using lan_host_sends(1) by blast
  from connect_loop_reply [OF this, of 0 "[Timeout, Timeout, Timeout]"] obtain fs where
      "connect_loop ref_netstack ?n (Addr4 0x0a000002) ?p 0 [Timeout, Timeout, Timeout] = Inr (fs, GaveUp)"
    by (auto simp: connect_reply_def numeral_3_eq_3)
  moreover have "pickPort ex_stack [7] = Some 20007" by (simp add: ex_stack_def)
  ultimately show ?thesis by (simp add: VConnect_def Let_def)
qed

theorem VConnect_table_witness:
  "\<exists>t' es. VConnect ref_netstack (lan_host 0x0a000001 0x0a000002) ex_stack (Addr4 0x0a000002) 80 [7] [Timeout, Timeout, Timeout] =
     Inr (Some (t', es, CouldNotConnect)) \<and> lookupSID t' = lookupSID ex_stack"
proof -
  from ex_connect_fails obtain t' es where e: "VConnect ref_netstack (lan_host 0x0a000001 0x0a000002) ex_stack (Addr4 0x0a000002) 80
      [7] [Timeout, Timeout, Timeout] = Inr (Some (t', es, CouldNotConnect))" by blast
  have "pickPort ex_stack [7] = Some 20007" by (simp add: ex_stack_def)
  from VConnect_table [OF e this refl] e show ?thesis using ex_stack_ok by (auto simp: ex_stack_def)
qed

section \<open>The three-way handshake\<close>

text \<open>What two ends of a connection agree on.\<close>

definition peers :: "NormalSocket \<Rightarrow> NormalSocket \<Rightarrow> bool" where
  "peers c s \<longleftrightarrow> so_state c = ESTABLISHED \<and> so_state s = ESTABLISHED \<and> so_key s = flipSocketKeyFields (so_key c) \<and>
     so_baseAck c = so_baseSeq s \<and> so_baseAck s = so_baseSeq c \<and>
     so_cumReadNXT c = so_cumWriteUNA s \<and> so_cumReadNXT s = so_cumWriteUNA c \<and>
     so_cumWriteUNA c = so_baseSeq c + 1 \<and> so_cumWriteUNA s = so_baseSeq s + 1 \<and>
     so_readBuffer c = Some newReadBuffer \<and> so_readBuffer s = Some newReadBuffer \<and>
     so_writeBuffer c = Some newWriteBuffer \<and> so_writeBuffer s = Some newWriteBuffer"

text \<open>
  C8. The handshake works: when the server's \<open>VAccept\<close> receives the client's SYN and ACK, and
  the client's \<open>VConnect\<close> the server's SYN+ACK, both return an established socket, and the two
  sockets agree on addresses, ports and on both sequence number spaces.
\<close>

theorem three_way_handshake:
  assumes "netstack_flags ns" "ts_ip tC = ipC" "n_IpAddr nS = ipS" "ls_localPort l = port" "pickPort tC draws = Some cport"
    and syn: "syn = segmentInfo ipS (synPacket ns ipC ipS cport port)"
    and synack: "synack = segmentInfo ipC (synackPacket ns syn)"
    and ack: "ack = segmentInfo ipS (ackPacket ns ipC ipS cport port synack)"
    and "HandleSend ns nC ipS (marshallTCPPacket ns (synPacket ns ipC ipS cport port)) 6 = Inr e1"
    and "HandleSend ns nS ipC (marshallTCPPacket ns (synackPacket ns syn)) 6 = Inr e2"
    and "HandleSend ns nC ipS (marshallTCPPacket ns (ackPacket ns ipC ipS cport port synack)) 6 = Inr e3"
  shows "\<exists>tC' c tS' s. VConnect ns nC tC ipS port draws [Arrive synack] = Inr (Some (tC', e1 @ e3, Connected c)) \<and>
    VAccept ns nS tS l [syn, ack] = Inr (tS', e2, Connected s) \<and> peers c s"
proof -
  have flags: "ns_FlagSyn ns \<noteq> ns_FlagAck ns" using assms(1) by (simp add: netstack_flags_def)
  have f: "ti_Flag syn = ns_FlagSyn ns" "ti_Flag synack = SYNACK ns" "ti_Flag ack = ns_FlagAck ns"
    "sk_RemotePort (ti_key syn) = port" "sk_RemotePort (ti_key ack) = port" "sk_LocalAddr (ti_key syn) = ipC"
    by (simp_all add: syn synack ack segmentInfo_def synPacket_def synackPacket_def ackPacket_def)
  have "waitFor (ns_FlagSyn ns) port [syn, ack] = [syn, ack]" "waitFor (ns_FlagAck ns) port [syn, ack] = [ack]"
    using flags f by (simp_all add: waitFor_def)
  then show ?thesis
    using assms(2,4,5,9-11) f
    by (simp add: VConnect_def VAccept_def Let_def)
      (simp add: peers_def connectedSocket_def acceptingSocket_def connectingSocket_def flipSocketKeyFields_def
        syn synack segmentInfo_def synPacket_def synackPacket_def)
qed

theorem three_way_handshake_witness:
  "\<exists>synack syn ack tC' c tS' s eC eS.
     VConnect ref_netstack (lan_host 0x0a000001 0x0a000002) ex_stack (Addr4 0x0a000002) 80 [7] [Arrive synack] = Inr (Some (tC', eC, Connected c)) \<and>
     VAccept ref_netstack (lan_host 0x0a000002 0x0a000001) ex_stack \<lparr>ls_localPort = 80, ls_SID = 0\<rparr> [syn, ack] = Inr (tS', eS, Connected s) \<and>
     peers c s"
proof -
  let ?C = "lan_host 0x0a000001 0x0a000002" and ?S = "lan_host 0x0a000002 0x0a000001"
  define syn where "syn = segmentInfo (Addr4 0x0a000002) (synPacket ref_netstack (Addr4 0x0a000001) (Addr4 0x0a000002) 20007 80)"
  define synack where "synack = segmentInfo (Addr4 0x0a000001) (synackPacket ref_netstack syn)"
  define ack where "ack = segmentInfo (Addr4 0x0a000002) (ackPacket ref_netstack (Addr4 0x0a000001) (Addr4 0x0a000002) 20007 80 synack)"
  obtain p1 p2 p3 where sends:
    "HandleSend ref_netstack ?C (Addr4 0x0a000002) (marshallTCPPacket ref_netstack (synPacket ref_netstack (Addr4 0x0a000001) (Addr4 0x0a000002) 20007 80)) 6 = Inr p1"
    "HandleSend ref_netstack ?S (Addr4 0x0a000001) (marshallTCPPacket ref_netstack (synackPacket ref_netstack syn)) 6 = Inr p2"
    "HandleSend ref_netstack ?C (Addr4 0x0a000002) (marshallTCPPacket ref_netstack (ackPacket ref_netstack (Addr4 0x0a000001) (Addr4 0x0a000002) 20007 80 synack)) 6 = Inr p3"
    using lan_host_sends by blast
  have ids: "ts_ip ex_stack = Addr4 0x0a000001" "n_IpAddr ?S = Addr4 0x0a000002" "pickPort ex_stack [7] = Some 20007"
    "ls_localPort \<lparr>ls_localPort = 80, ls_SID = 0\<rparr> = 80"
    by (simp_all add: ex_stack_def lan_host_def Let_def)
  from three_way_handshake [OF ref_netstack_flags ids(1,2,4,3) syn_def synack_def ack_def sends, of ex_stack]
  show ?thesis by blast
qed

section \<open>From one socket's segment to the other socket's channel\<close>

text \<open>
  C14. End to end through TCP and IP: a segment that is put into an IP packet from the segment's
  own source address reaches the stack of the destination with the ports, flags, sequence and
  acknowledgement numbers, window and payload it was sent with (unless the IP checksum comes out
  as zero); and the stack's demultiplexer hands it to the connection between the receiving node's
  address and the sender's with the segment's ports, if there is one past the handshake, and else
  to the listener of the destination port, if there is one.
\<close>

theorem segment_delivered:
  assumes "netstack_codec ns" "netstack_checksum ns"
    and "tp_sourceIp p = Addr4 s" "tp_destIp p = Addr4 d" "1 \<le> ttl" "ttl < 256" "40 + length (tp_payload p) < 65536"
    and "makePacket ns (Addr4 s) (Addr4 d) 6 ttl (marshallTCPPacket ns p) = Inr pkt"
    and "packet_checksum ns s d 6 ttl (20 + length (tp_payload p)) \<noteq> 0"
    and "checkDest node (Addr4 d)" "map_of (n_handlerTable node) 6 = Some Protocol6"
    and "stack_ok t" "k = \<lparr>sk_LocalAddr = n_IpAddr node, sk_LocalPort = tp_destPort p, sk_RemoteAddr = Addr4 s, sk_RemotePort = tp_sourcePort p\<rparr>"
  shows "handlePackets ns now node \<lparr>vis = pkt, spare = sp\<rparr> = Inr (node, [ToTCP (segmentInfo (n_IpAddr node) p)]) \<and>
    demux t (segmentInfo (n_IpAddr node) p) = Inr
      (if \<exists>sock. map_of (ts_SocketTable t) k = Some (Normal sock) \<and> so_state sock \<noteq> SYN_RECEIVED then ToNormal k
       else if map_of (ts_SocketTable t) (listenKey (tp_destPort p)) = None then Ignored else ToListener (listenKey (tp_destPort p)))"
proof
  show "handlePackets ns now node \<lparr>vis = pkt, spare = sp\<rparr> = Inr (node, [ToTCP (segmentInfo (n_IpAddr node) p)])"
    using assms(1-11) by (rule segment_to_stack)
  have "flipSocketKeyFields (ti_key (segmentInfo (n_IpAddr node) p)) = k"
    using assms(3,13) by (simp add: segmentInfo_def flipSocketKeyFields_def)
  moreover have "sk_RemotePort (ti_key (segmentInfo (n_IpAddr node) p)) = tp_destPort p"
    "sk_LocalAddr (ti_key (segmentInfo (n_IpAddr node) p)) = Addr4 s"
    using assms(3) by (simp_all add: segmentInfo_def)
  ultimately show "demux t (segmentInfo (n_IpAddr node) p) = Inr
      (if \<exists>sock. map_of (ts_SocketTable t) k = Some (Normal sock) \<and> so_state sock \<noteq> SYN_RECEIVED then ToNormal k
       else if map_of (ts_SocketTable t) (listenKey (tp_destPort p)) = None then Ignored else ToListener (listenKey (tp_destPort p)))"
    using demux_cases [OF assms(12), of "segmentInfo (n_IpAddr node) p"] by (auto split: option.splits Socket.splits)
qed

definition ex_conn :: SocketTableKey where
  "ex_conn = \<lparr>sk_LocalAddr = Addr4 0x0a000001, sk_LocalPort = 9999, sk_RemoteAddr = Addr4 0x0a000002, sk_RemotePort = 20000\<rparr>"

definition ex_connected :: TCPStack where
  "ex_connected = addSocket ex_stack ex_conn (Normal (connectedSocket (connectingSocket (ts_SID ex_stack) ex_conn) ex_info))"

theorem segment_delivered_witness:
  "\<exists>pkt. makePacket ref_netstack (Addr4 0x0a000002) (Addr4 0x0a000001) 6 16 (marshallTCPPacket ref_netstack ex_segment) = Inr pkt \<and>
     handlePackets ref_netstack 0 ex_host (slice_of pkt) = Inr (ex_host, [ToTCP (segmentInfo (Addr4 0x0a000001) ex_segment)]) \<and>
     demux ex_connected (segmentInfo (Addr4 0x0a000001) ex_segment) = Inr (ToNormal ex_conn)"
proof -
  obtain pkt where pkt: "makePacket ref_netstack (Addr4 0x0a000002) (Addr4 0x0a000001) 6 16
      (marshallTCPPacket ref_netstack ex_segment) = Inr pkt"
    by (simp add: makePacket_eq)
  have ck: "packet_checksum ref_netstack 0x0a000002 0x0a000001 6 16 22 \<noteq> 0" by (simp add: checksum_eval)
  have h: "checkDest ex_host (Addr4 0x0a000001)" "map_of (n_handlerTable ex_host) 6 = Some Protocol6"
      "n_IpAddr ex_host = Addr4 0x0a000001"
    by (simp_all add: ex_host_def ex_router_simps checkDest_def)
  let ?s = "connectedSocket (connectingSocket (ts_SID ex_stack) ex_conn) ex_info"
  have "may_open ex_stack ex_conn (Normal ?s)"
    by (simp add: may_open_def ex_stack_def ex_conn_def connectedSocket_def connectingSocket_def)
  then have ok: "stack_ok ex_connected" unfolding ex_connected_def by (rule stack_ok_add [OF ex_stack_ok])
  have m: "map_of (ts_SocketTable ex_connected) ex_conn = Some (Normal ?s)" "so_state ?s = ESTABLISHED"
    by (simp_all add: ex_connected_def table_addSocket) (simp add: connectedSocket_def)
  show ?thesis
    using segment_delivered [OF ref_netstack_codec ref_netstack_checksum _ _ _ _ _ pkt _ h(1,2) ok, of ex_conn 0 "[]"] pkt ck m
    by (auto simp: h(3) ex_segment_def slice_of_def ex_conn_def)
qed

end
