(* ===== verification/Tcp_Ring.thy ===== *)
theory Tcp_Ring
  imports Tcp_Handshake
begin

text \<open>
  \<open>pkg/tcpstack/tcpstack.go\<close>, third part: the circular buffers. The index arithmetic of the
  source is on \<open>uint32\<close> modulo the window size; here it is related to reading and writing a
  list cyclically. The read buffer, filled by the copy loop of \<open>ReceiverThread\<close> and emptied by
  the slices of \<open>VRead\<close>, and the write buffer, filled by \<open>VWrite\<close> and emptied by
  \<open>SenderThread\<close>, both implement a bounded queue of bytes.
\<close>

section \<open>Computations that may panic or never return\<close>

text \<open>\<open>Inr None\<close> is a computation that does not return: a loop that does not end, a lock never released.\<close>

definition bindo :: "'a option res \<Rightarrow> ('a \<Rightarrow> 'b option res) \<Rightarrow> 'b option res" where
  "bindo m f = bindr m (\<lambda>r. case r of None \<Rightarrow> Inr None | Some x \<Rightarrow> f x)"

lemma bindo_simps [simp]:
  "bindo (Inl e) f = Inl e"
  "bindo (Inr None) f = Inr None"
  "bindo (Inr (Some x)) f = f x"
  by (simp_all add: bindo_def)

lemma bindo_eq_Some: "bindo m f = Inr (Some y) \<longleftrightarrow> (\<exists>x. m = Inr (Some x) \<and> f x = Inr (Some y))"
  by (cases m) (auto simp: bindo_def split: option.splits)

section \<open>Copying into and out of the buffers\<close>

definition copy_at :: "bytes \<Rightarrow> nat \<Rightarrow> bytes \<Rightarrow> bytes" where
  "copy_at buf i xs = take i buf @ xs @ drop (i + length xs) buf"

text \<open>
  The loop that copies a payload into the read buffer. It would spin for ever on a position
  equal to the window size, hence the fuel; \<open>copyPayload_fuel\<close> shows that the length of the
  payload is enough for every position inside the buffer.
\<close>

fun copy_loop :: "nat \<Rightarrow> ReadBuffer \<Rightarrow> u32 \<Rightarrow> bytes \<Rightarrow> ReadBuffer option res" where
  "copy_loop fuel rb to_add payload =
     (if to_add = 0 then Inr (Some rb)
      else case fuel of
        0 \<Rightarrow> Inr None
      | Suc fuel' \<Rightarrow>
          let curr = min (WINDOW_SIZE - rb_NXT rb) to_add
          in if rb_NXT rb + curr < rb_NXT rb \<or> length (rb_buffer rb) < unat (rb_NXT rb + curr) \<or> length payload < unat curr
             then Inl RangePanic
             else copy_loop fuel'
               (rb\<lparr>rb_buffer := copy_at (rb_buffer rb) (unat (rb_NXT rb)) (take (unat curr) payload),
                   rb_NXT := (rb_NXT rb + curr) mod WINDOW_SIZE\<rparr>)
               (to_add - curr) (drop (unat curr) payload))"

declare copy_loop.simps [simp del]

definition copyPayload :: "ReadBuffer \<Rightarrow> bytes \<Rightarrow> ReadBuffer option res" where
  "copyPayload rb payload = copy_loop (length payload) rb (of_nat (length payload)) payload"

definition rb_room :: "ReadBuffer \<Rightarrow> u32" where
  "rb_room rb = (rb_LBR rb - rb_NXT rb + WINDOW_SIZE) mod WINDOW_SIZE"

definition rb_used :: "ReadBuffer \<Rightarrow> u32" where
  "rb_used rb = (rb_NXT rb - 1 - rb_LBR rb + WINDOW_SIZE) mod WINDOW_SIZE"

text \<open>
  \<open>append(buf[lo:hi], xs...)\<close>: as long as the capacity of the slice, which reaches to the end
  of the buffer, suffices, the appended bytes overwrite the buffer behind the slice.
\<close>

definition append_slice :: "bytes \<Rightarrow> nat \<Rightarrow> nat \<Rightarrow> bytes \<Rightarrow> (bytes \<times> bytes) res" where
  "append_slice buf lo hi xs =
     bindr (slice_range (slice_of buf) lo hi) (\<lambda>s.
       Inr (vis s @ xs, if length xs \<le> length (spare s) then copy_at buf hi xs else buf))"

definition readOut :: "ReadBuffer \<Rightarrow> u16 \<Rightarrow> (bytes \<times> ReadBuffer) res" where
  "readOut rb numbytes =
     (let num_read = min (rb_used rb) (ucast numbytes);
          first_seg = min (rb_LBR rb + num_read) (WINDOW_SIZE - 1);
          second_seg = num_read - (first_seg - rb_LBR rb)
      in bindr (slice_range (slice_of (rb_buffer rb)) 0 (unat second_seg)) (\<lambda>tl.
         bindr (append_slice (rb_buffer rb) (unat (rb_LBR rb + 1)) (unat (first_seg + 1)) (vis tl)) (\<lambda>(toRead, buf).
           Inr (toRead, rb\<lparr>rb_buffer := buf, rb_LBR := (rb_LBR rb + num_read) mod WINDOW_SIZE\<rparr>))))"

text \<open>One turn of the loop of \<open>VWrite\<close>, for the bytes it takes; the payload \<open>SenderThread\<close> takes.\<close>

definition writeChunk :: "WriteBuffer \<Rightarrow> bytes \<Rightarrow> WriteBuffer res" where
  "writeChunk wb chunk =
     (let to_write = of_nat (length chunk);
          first_seg = min (WINDOW_SIZE - wb_LBW wb - 1) to_write;
          second_seg = to_write - first_seg
      in bindr (slice_range (slice_of (wb_buffer wb)) (unat (wb_LBW wb + 1)) (unat (wb_LBW wb + 1 + first_seg))) (\<lambda>_.
         bindr (slice_range (slice_of (wb_buffer wb)) 0 (unat second_seg)) (\<lambda>_.
           Inr (wb\<lparr>wb_buffer := copy_at (copy_at (wb_buffer wb) (unat (wb_LBW wb + 1)) (take (unat first_seg) chunk)) 0
                  (drop (unat first_seg) chunk),
                wb_LBW := (wb_LBW wb + to_write) mod WINDOW_SIZE\<rparr>))))"

definition senderPayload :: "WriteBuffer \<Rightarrow> u32 \<Rightarrow> bytes res" where
  "senderPayload wb lbw =
     (let amount_to_send = (lbw - wb_NXT wb + 1 + WINDOW_SIZE) mod WINDOW_SIZE;
          first_seg = min (WINDOW_SIZE - wb_NXT wb) amount_to_send;
          second_seg = amount_to_send - first_seg
      in bindr (slice_range (slice_of (wb_buffer wb)) (unat (wb_NXT wb)) (unat (wb_NXT wb + first_seg))) (\<lambda>s1.
         bindr (slice_range (slice_of (wb_buffer wb)) 0 (unat second_seg)) (\<lambda>s2.
           Inr (vis s1 @ vis s2))))"

section \<open>Lists read and written cyclically\<close>

definition ring_read :: "'a list \<Rightarrow> nat \<Rightarrow> nat \<Rightarrow> 'a list" where
  "ring_read buf i n = map (\<lambda>j. buf ! ((i + j) mod length buf)) [0..<n]"

fun ring_put :: "'a list \<Rightarrow> nat \<Rightarrow> 'a list \<Rightarrow> 'a list" where
  "ring_put buf i [] = buf"
| "ring_put buf i (x # xs) = ring_put (buf[i mod length buf := x]) (Suc i) xs"

lemma length_ring [simp]: "length (ring_put buf i xs) = length buf" "length (ring_read buf i n) = n"
  by (induction buf i xs rule: ring_put.induct) (simp_all add: ring_read_def)

lemma ring_read_0 [simp]: "ring_read buf i 0 = []"
  by (simp add: ring_read_def)

lemma ring_read_add: "ring_read buf i (m + n) = ring_read buf i m @ ring_read buf (i + m) n"
  by (rule nth_equalityI) (auto simp: ring_read_def nth_append add.assoc)

lemma ring_read_one: "ring_read buf i (Suc 0) = [buf ! (i mod length buf)]"
  by (simp add: ring_read_def)

lemma ring_read_mod: "ring_read buf (i mod length buf) n = ring_read buf i n"
  by (simp add: ring_read_def mod_simps)

lemma ring_read_cong: "i mod length buf = j mod length buf \<Longrightarrow> ring_read buf i n = ring_read buf j n"
  using ring_read_mod [of buf i n] ring_read_mod [of buf j n] by simp

lemma ring_read_slice: "i + n \<le> length buf \<Longrightarrow> ring_read buf i n = take n (drop i buf)"
  by (rule nth_equalityI) (auto simp: ring_read_def)

lemma ring_put_append: "ring_put buf i (xs @ ys) = ring_put (ring_put buf i xs) (i + length xs) ys"
  by (induction buf i xs rule: ring_put.induct) simp_all

lemma ring_put_cong: "i mod length buf = j mod length buf \<Longrightarrow> ring_put buf i xs = ring_put buf j xs"
proof (induction xs arbitrary: buf i j)
  case (Cons x xs)
  let ?b = "buf[j mod length buf := x]"
  have "Suc i mod length ?b = Suc j mod length ?b" using Cons.prems by (simp add: mod_Suc)
  then have "ring_put ?b (Suc i) xs = ring_put ?b (Suc j) xs" by (rule Cons.IH)
  then show ?case by (simp add: Cons.prems)
qed simp

lemma ring_put_mod: "ring_put buf (i mod length buf) xs = ring_put buf i xs"
  by (rule ring_put_cong) simp

lemma ring_put_slice: "i + length xs \<le> length buf \<Longrightarrow> ring_put buf i xs = copy_at buf i xs"
proof (induction xs arbitrary: buf i)
  case (Cons x xs)
  then have "ring_put buf i (x # xs) = copy_at (buf[i := x]) (Suc i) xs" by simp
  also have "\<dots> = copy_at buf i (x # xs)"
    using Cons.prems by (simp add: copy_at_def take_Suc_conv_app_nth upd_conv_take_nth_drop nth_append add.commute)
  finally show ?case .
qed (simp add: copy_at_def)

lemma ring_unique_le:
  fixes a p q w :: nat
  assumes "(a + p) mod w = (a + q) mod w" "q < w" "p \<le> q"
  shows "p = q"
proof -
  have "w dvd (a + q) - (a + p)" using assms by (intro mod_eq_dvd_iff_nat [THEN iffD1]) simp_all
  then have "w dvd q - p" by simp
  then have "q - p = 0" using assms(2) dvd_imp_le [of w "q - p"] by linarith
  with assms(3) show ?thesis by simp
qed

lemma ring_unique:
  fixes a p q w :: nat
  assumes "(a + p) mod w = (a + q) mod w" "p < w" "q < w"
  shows "p = q"
proof (cases "p \<le> q")
  case True
  show ?thesis by (rule ring_unique_le [OF assms(1,3) True])
next
  case False
  then have "q = p" by (intro ring_unique_le [OF assms(1) [symmetric] assms(2)]) simp
  then show ?thesis by simp
qed

lemma ring_read_update:
  assumes "m < length buf"
  shows "ring_read (buf[(s + m) mod length buf := x]) s m = ring_read buf s m"
proof (rule nth_equalityI)
  fix j
  assume "j < length (ring_read (buf[(s + m) mod length buf := x]) s m)"
  then have j: "j < m" by simp
  have "(s + j) mod length buf \<noteq> (s + m) mod length buf"
  proof
    assume "(s + j) mod length buf = (s + m) mod length buf"
    then have "j = m" by (rule ring_unique) (use j assms in simp_all)
    with j show False by simp
  qed
  with j show "ring_read (buf[(s + m) mod length buf := x]) s m ! j = ring_read buf s m ! j"
    by (simp add: ring_read_def)
qed simp

lemma ring_read_put:
  "m + length xs \<le> length buf \<Longrightarrow>
     ring_read (ring_put buf (s + m) xs) s (m + length xs) = ring_read buf s m @ xs"
proof (induction xs arbitrary: buf m)
  case (Cons x xs)
  let ?b = "buf[(s + m) mod length buf := x]"
  have "0 < length buf" using Cons.prems by (cases buf) simp_all
  then have "(s + m) mod length buf < length buf" by simp
  then have "ring_read ?b (s + m) 1 = [x]" by (simp add: ring_read_one)
  moreover have "ring_read ?b s m = ring_read buf s m" using Cons.prems by (intro ring_read_update) simp
  moreover have "ring_read ?b s (m + 1) = ring_read ?b s m @ ring_read ?b (s + m) 1" by (rule ring_read_add)
  ultimately have "ring_read ?b s (Suc m) = ring_read buf s m @ [x]" by simp
  with Cons.IH [of "Suc m" ?b] Cons.prems show ?case by simp
qed simp

text \<open>A stretch of at most the whole ring consists of two slices.\<close>

lemma ring_read_split:
  assumes "i \<le> length buf" "n \<le> length buf"
  shows "ring_read buf i n = take n (drop i buf) @ take (n - (length buf - i)) buf"
proof (cases "i + n \<le> length buf")
  case False
  define a where "a = length buf - i"
  have "ring_read buf i (a + (n - a)) = ring_read buf i a @ ring_read buf (i + a) (n - a)" by (rule ring_read_add)
  moreover have "ring_read buf (i + a) (n - a) = ring_read buf 0 (n - a)"
    using assms ring_read_mod [of buf "length buf" "n - a"] by (simp add: a_def)
  ultimately show ?thesis using assms False by (simp add: ring_read_slice a_def)
qed (simp add: ring_read_slice)

lemma ring_put_split:
  assumes "i \<le> length buf" "length xs \<le> length buf"
  shows "ring_put buf i xs =
    copy_at (copy_at buf i (take (length buf - i) xs)) 0 (drop (length buf - i) xs)"
proof (cases "i + length xs \<le> length buf")
  case True
  then show ?thesis by (simp add: ring_put_slice copy_at_def)
next
  case False
  define a where "a = length buf - i"
  let ?b = "ring_put buf i (take a xs)"
  have "ring_put buf i xs = ring_put ?b (i + a) (drop a xs)"
    using ring_put_append [of buf i "take a xs" "drop a xs"] False by (simp add: a_def)
  also have "\<dots> = ring_put ?b 0 (drop a xs)"
    using assms by (intro ring_put_cong) (simp add: a_def)
  also have "\<dots> = copy_at ?b 0 (drop a xs)" using assms by (intro ring_put_slice) (simp add: a_def)
  also have "?b = copy_at buf i (take a xs)" using assms by (intro ring_put_slice) (simp add: a_def)
  finally show ?thesis by (simp add: a_def)
qed

section \<open>Index arithmetic\<close>

lemma unat_WINDOW_SIZE [simp]: "unat WINDOW_SIZE = 65536"
  by (simp add: WINDOW_SIZE_def)

lemma WINDOW_SIZE_mod [ring_simps]: "unat (x mod WINDOW_SIZE) = unat x mod 65536"
  by (simp add: unat_mod)

lemma ring_add [ring_simps]: "unat ((x + y) mod WINDOW_SIZE) = (unat x + unat y) mod 65536"
proof -
  have "unat (x + y) mod 65536 = (unat x + unat y) mod 2 ^ 32 mod 65536" by (simp add: unat_word_ariths)
  also have "\<dots> = (unat x + unat y) mod 65536" by (rule mod_mod_cancel) simp
  finally show ?thesis by (simp add: WINDOW_SIZE_mod)
qed

lemma ring_sub [ring_simps]:
  assumes "y < WINDOW_SIZE"
  shows "unat ((x - y + WINDOW_SIZE) mod WINDOW_SIZE) = (unat x + (65536 - unat y)) mod 65536"
proof -
  have "unat (WINDOW_SIZE - y) = 65536 - unat y" using assms by (simp add: unat_sub)
  then have "unat ((x + (WINDOW_SIZE - y)) mod WINDOW_SIZE) = (unat x + (65536 - unat y)) mod 65536"
    by (simp add: ring_add)
  moreover have "x - y + WINDOW_SIZE = x + (WINDOW_SIZE - y)" by simp
  ultimately show ?thesis by (simp only:)
qed

lemma less_WINDOW_SIZE: "x < WINDOW_SIZE \<longleftrightarrow> unat x < 65536"
  by (simp add: word_less_nat_alt)

lemma mod_WINDOW_SIZE_less [simp]: "x mod WINDOW_SIZE < WINDOW_SIZE"
  by (simp add: less_WINDOW_SIZE ring_simps)

lemma ring_wrap: "a < 2 * w \<Longrightarrow> a mod w = (if a < w then a else a - w)" for a w :: nat
  by (cases "a < w") (simp_all add: le_mod_geq)

lemma ring_advance:
  fixes k u l :: nat
  assumes "k \<le> u" "u \<le> 65535" "l < 65536"
  shows "((l + 1 + u) mod 65536 + (65535 - (l + k) mod 65536)) mod 65536 = u - k"
proof -
  define a b where "a = (l + 1 + u) mod 65536" and "b = (l + k) mod 65536"
  have "a = (if l + 1 + u < 65536 then l + 1 + u else l + 1 + u - 65536)"
    unfolding a_def using assms by (intro ring_wrap) linarith
  moreover have "b = (if l + k < 65536 then l + k else l + k - 65536)"
    unfolding b_def using assms by (intro ring_wrap) linarith
  ultimately have "a + (65535 - b) = u - k \<or> a + (65535 - b) = u - k + 65536"
    using assms by (cases "l + 1 + u < 65536"; cases "l + k < 65536"; simp; linarith)
  moreover have "(u - k + 65536) mod 65536 = u - k" "(u - k) mod 65536 = u - k"
    using assms(2) by (simp_all only: mod_add_self2) (simp_all add: mod_less)
  ultimately have "(a + (65535 - b)) mod 65536 = u - k" by (elim disjE) (simp_all only:)
  then show ?thesis by (simp only: a_def b_def)
qed

section \<open>The read buffer\<close>

definition rb_ok :: "ReadBuffer \<Rightarrow> bool" where
  "rb_ok rb \<longleftrightarrow> length (rb_buffer rb) = 65536 \<and> rb_LBR rb < WINDOW_SIZE \<and> rb_NXT rb < WINDOW_SIZE"

definition unread :: "ReadBuffer \<Rightarrow> bytes" where
  "unread rb = ring_read (rb_buffer rb) (unat (rb_LBR rb) + 1) (unat (rb_used rb))"

lemma unat_rb_used:
  assumes "rb_ok rb"
  shows "unat (rb_used rb) = (unat (rb_NXT rb) + (65535 - unat (rb_LBR rb))) mod 65536"
proof -
  have "rb_LBR rb \<le> WINDOW_SIZE - 1"
    using assms by (simp add: rb_ok_def WINDOW_SIZE_def word_less_nat_alt word_le_nat_alt)
  then have "unat (WINDOW_SIZE - 1 - rb_LBR rb) = unat (WINDOW_SIZE - 1) - unat (rb_LBR rb)" by (rule unat_sub)
  also have "unat (WINDOW_SIZE - 1) = 65535" by (simp add: WINDOW_SIZE_def)
  finally have "unat ((rb_NXT rb + (WINDOW_SIZE - 1 - rb_LBR rb)) mod WINDOW_SIZE) =
      (unat (rb_NXT rb) + (65535 - unat (rb_LBR rb))) mod 65536"
    by (simp add: ring_add)
  moreover have "rb_NXT rb + (WINDOW_SIZE - 1 - rb_LBR rb) = rb_NXT rb - 1 - rb_LBR rb + WINDOW_SIZE" by simp
  ultimately show ?thesis by (simp add: rb_used_def)
qed

lemma unat_rb_room:
  "rb_ok rb \<Longrightarrow> unat (rb_room rb) = (unat (rb_LBR rb) + (65536 - unat (rb_NXT rb))) mod 65536"
  by (simp add: rb_room_def ring_sub rb_ok_def)

lemma room_used:
  assumes "rb_ok rb"
  shows "unat (rb_used rb) + unat (rb_room rb) = 65535"
  using assms
  by (auto simp: unat_rb_used unat_rb_room rb_ok_def less_WINDOW_SIZE mod_if)

lemma NXT_position:
  assumes "rb_ok rb"
  shows "unat (rb_NXT rb) = (unat (rb_LBR rb) + 1 + unat (rb_used rb)) mod 65536"
  using assms
  by (auto simp: unat_rb_used rb_ok_def less_WINDOW_SIZE mod_if)

lemma copy_loop_ring:
  assumes "rb_ok rb" "length xs < 4294967296" "length xs \<le> fuel"
  shows "copy_loop fuel rb (of_nat (length xs)) xs =
    Inr (Some (rb\<lparr>rb_buffer := ring_put (rb_buffer rb) (unat (rb_NXT rb)) xs,
      rb_NXT := of_nat ((unat (rb_NXT rb) + length xs) mod 65536)\<rparr>))"
  using assms
proof (induction fuel arbitrary: rb xs)
  case 0
  then show ?case by (simp add: copy_loop.simps rb_ok_def less_WINDOW_SIZE)
next
  case (Suc fuel)
  show ?case
  proof (cases "xs = []")
    case True
    with Suc.prems show ?thesis by (simp add: copy_loop.simps rb_ok_def less_WINDOW_SIZE)
  next
    case False
    let ?x = "unat (rb_NXT rb)"
    define c where "c = min (65536 - ?x) (length xs)"
    define curr where "curr = min (WINDOW_SIZE - rb_NXT rb) (of_nat (length xs))"
    have len: "unat (of_nat (length xs) :: u32) = length xs" using Suc.prems(2) by (simp add: unat_of_nat)
    have x: "?x < 65536" "length (rb_buffer rb) = 65536" using Suc.prems(1) by (simp_all add: rb_ok_def less_WINDOW_SIZE)
    have "unat (WINDOW_SIZE - rb_NXT rb) = 65536 - ?x" using x by (simp add: unat_sub word_le_nat_alt)
    then have curr: "unat curr = c" by (simp add: curr_def c_def len min_def word_le_nat_alt)
    have c: "0 < c" "c \<le> length xs" "?x + c \<le> 65536" using x False by (auto simp: c_def)
    have sum: "unat (rb_NXT rb + curr) = ?x + c"
      using c(3) curr by (simp add: unat_word_ariths)
    have rest: "of_nat (length xs) - curr = (of_nat (length (drop c xs)) :: u32)"
    proof -
      have "curr = of_nat c" using curr c(3) by (simp add: word_unat_eq_iff unat_of_nat)
      with c show ?thesis by (simp add: of_nat_diff)
    qed
    let ?rb = "rb\<lparr>rb_buffer := copy_at (rb_buffer rb) ?x (take c xs), rb_NXT := (rb_NXT rb + curr) mod WINDOW_SIZE\<rparr>"
    have put: "copy_at (rb_buffer rb) ?x (take c xs) = ring_put (rb_buffer rb) ?x (take c xs)"
      using c x by (simp add: ring_put_slice)
    have ok: "rb_ok ?rb" using Suc.prems(1) by (simp add: rb_ok_def put)
    have "copy_loop (Suc fuel) rb (of_nat (length xs)) xs = copy_loop fuel ?rb (of_nat (length (drop c xs))) (drop c xs)"
      using False c x sum len
      by (simp add: copy_loop.simps [of "Suc fuel"] curr_def [symmetric] curr rest Let_def word_less_nat_alt
          word_unat_eq_iff)
    also have "\<dots> = Inr (Some (?rb\<lparr>rb_buffer := ring_put (rb_buffer ?rb) (unat (rb_NXT ?rb)) (drop c xs),
        rb_NXT := of_nat ((unat (rb_NXT ?rb) + length (drop c xs)) mod 65536)\<rparr>))"
      using Suc.prems c by (intro Suc.IH [OF ok]) auto
    also have "unat (rb_NXT ?rb) = (?x + c) mod 65536" by (simp add: sum WINDOW_SIZE_mod)
    also have "ring_put (rb_buffer ?rb) ((?x + c) mod 65536) (drop c xs) = ring_put (rb_buffer rb) ?x xs"
      using ring_put_mod [of "ring_put (rb_buffer rb) ?x (take c xs)" "?x + c" "drop c xs"]
        ring_put_append [of "rb_buffer rb" ?x "take c xs" "drop c xs"] c x
      by (simp add: put)
    also have "((?x + c) mod 65536 + length (drop c xs)) mod 65536 = (?x + length xs) mod 65536"
      using c by (simp only: length_drop mod_add_left_eq) simp
    finally show ?thesis by simp
  qed
qed

lemma copyPayload_fuel:
  assumes "rb_ok rb" "length xs < 4294967296"
  shows "copyPayload rb xs =
    Inr (Some (rb\<lparr>rb_buffer := ring_put (rb_buffer rb) (unat (rb_NXT rb)) xs,
      rb_NXT := of_nat ((unat (rb_NXT rb) + length xs) mod 65536)\<rparr>))"
  using copy_loop_ring [OF assms order_refl] by (simp add: copyPayload_def)

lemma length_unread [simp]: "length (unread rb) = unat (rb_used rb)"
  by (simp add: unread_def)

lemma copyPayload_unread:
  assumes "rb_ok rb" "length xs \<le> unat (rb_room rb)"
  shows "\<exists>rb'. copyPayload rb xs = Inr (Some rb') \<and> rb_ok rb' \<and> unread rb' = unread rb @ xs \<and>
    rb_LBR rb' = rb_LBR rb \<and> unat (rb_NXT rb') = (unat (rb_NXT rb) + length xs) mod 65536"
proof -
  let ?u = "unat (rb_used rb)" and ?l = "unat (rb_LBR rb)" and ?x = "unat (rb_NXT rb)"
  define rb' where "rb' = rb\<lparr>rb_buffer := ring_put (rb_buffer rb) ?x xs,
    rb_NXT := of_nat ((?x + length xs) mod 65536)\<rparr>"
  have fit: "?u + length xs \<le> 65535" using assms room_used by fastforce
  have nxt: "unat (rb_NXT rb') = (?x + length xs) mod 65536" by (simp add: rb'_def unat_of_nat)
  have ok: "rb_ok rb'" using assms(1) nxt by (simp add: rb_ok_def rb'_def less_WINDOW_SIZE)
  have l: "?l < 65536" "length (rb_buffer rb) = 65536" using assms(1) by (simp_all add: rb_ok_def less_WINDOW_SIZE)
  have x: "?x = (?l + 1 + ?u) mod 65536" using assms(1) by (rule NXT_position)
  have "unat (rb_used rb') = ((?l + 1 + ?u + length xs) mod 65536 + (65535 - ?l)) mod 65536"
    using ok nxt by (simp add: unat_rb_used x mod_simps) (simp add: rb'_def)
  also have "\<dots> = (?l + 1 + ?u + length xs + (65535 - ?l)) mod 65536" by (rule mod_add_left_eq)
  also have "\<dots> = (?u + length xs + 65536) mod 65536" using l by (intro arg_cong2 [of _ _ _ _ "(mod)"]) simp_all
  also have "\<dots> = ?u + length xs" using fit by simp
  finally have used: "unat (rb_used rb') = ?u + length xs" .
  have "ring_put (rb_buffer rb) ?x xs = ring_put (rb_buffer rb) (?l + 1 + ?u) xs"
    using l x ring_put_mod [of "rb_buffer rb" "?l + 1 + ?u" xs] by simp
  then have "unread rb' = unread rb @ xs"
    using ring_read_put [of ?u xs "rb_buffer rb" "?l + 1"] fit l used by (simp add: unread_def rb'_def)
  moreover have "copyPayload rb xs = Inr (Some rb')"
    using copyPayload_fuel [OF assms(1)] fit by (simp add: rb'_def)
  ultimately show ?thesis using ok nxt by (intro exI [of _ rb']) (simp add: rb'_def)
qed

lemma append_slice_end:
  assumes "lo \<le> hi" "hi \<le> length buf" "xs \<noteq> [] \<Longrightarrow> hi = length buf"
  shows "append_slice buf lo hi xs = Inr (take (hi - lo) (drop lo buf) @ xs, buf)"
  using assms
  by (cases "xs = []") (simp_all add: append_slice_def slice_range_def slice_of_def slice_cap_def copy_at_def)

lemma unat_u16_u32 [simp]: "unat (ucast (w :: u16) :: u32) = unat w"
proof -
  have "uint (ucast w :: u32) = uint w" by (rule uint_up_ucast) (simp add: is_up)
  then show ?thesis by (simp only: unat_eq_nat_uint)
qed

lemma unat_min_u32: "unat (min a b :: u32) = min (unat a) (unat b)"
  by (simp add: min_def word_le_nat_alt)

text \<open>
  Reading takes the first bytes of the buffer's content; the \<open>append\<close> of \<open>VRead\<close> never
  writes into the buffer.
\<close>

lemma readOut_slices:
  fixes numbytes :: u16
  assumes "rb_ok rb"
  defines "k \<equiv> min (unat (rb_used rb)) (unat numbytes)"
  shows "readOut rb numbytes = Inr (ring_read (rb_buffer rb) (unat (rb_LBR rb) + 1) k,
    rb\<lparr>rb_LBR := of_nat ((unat (rb_LBR rb) + k) mod 65536)\<rparr>)"
proof -
  let ?l = "unat (rb_LBR rb)" and ?b = "rb_buffer rb"
  define num_read where "num_read = min (rb_used rb) (ucast numbytes)"
  define first_seg where "first_seg = min (rb_LBR rb + num_read) (WINDOW_SIZE - 1)"
  have l: "?l < 65536" "length ?b = 65536" using assms(1) by (simp_all add: rb_ok_def less_WINDOW_SIZE)
  have k: "unat num_read = k" "k < 65536" using unat_u16_less [of numbytes]
    by (simp_all add: num_read_def k_def unat_min_u32)
  have sum: "unat (rb_LBR rb + num_read) = ?l + k" using k l by (simp add: unat_word_ariths)
  have fs: "unat first_seg = min (?l + k) 65535"
    by (simp add: first_seg_def unat_min_u32 sum) (simp add: WINDOW_SIZE_def)
  then have "unat (first_seg - rb_LBR rb) = unat first_seg - ?l"
    using l by (intro unat_sub) (simp add: word_le_nat_alt)
  then have ss: "unat (num_read - (first_seg - rb_LBR rb)) = k - (65535 - ?l)"
    using fs k l by (subst unat_sub) (auto simp: word_le_nat_alt min_def)
  have idx: "unat (rb_LBR rb + 1) = ?l + 1" "unat (first_seg + 1) = min (?l + k) 65535 + 1"
    using l fs by (simp_all add: unat_word_ariths)
  have lbr: "(rb_LBR rb + num_read) mod WINDOW_SIZE = of_nat ((?l + k) mod 65536)"
    by (simp add: word_unat_eq_iff WINDOW_SIZE_mod sum unat_of_nat)
  have tl: "slice_range (slice_of ?b) 0 (k - (65535 - ?l)) = Inr \<lparr>vis = take (k - (65535 - ?l)) ?b, spare = drop (k - (65535 - ?l)) ?b\<rparr>"
    using l k by (simp add: slice_range_def slice_of_def slice_cap_def)
  have "append_slice ?b (?l + 1) (min (?l + k) 65535 + 1) (take (k - (65535 - ?l)) ?b) =
      Inr (take k (drop (?l + 1) ?b) @ take (k - (65535 - ?l)) ?b, ?b)"
    using l by (subst append_slice_end) (auto simp: min_def)
  also have "take k (drop (?l + 1) ?b) @ take (k - (65535 - ?l)) ?b = ring_read ?b (?l + 1) k"
    using l k by (simp add: ring_read_split)
  finally show ?thesis
    by (simp only: readOut_def Let_def num_read_def [symmetric] first_seg_def [symmetric] ss idx tl bindr_simps
        slice.select_convs lbr case_prod_conv) simp
qed

lemma readOut_unread:
  fixes numbytes :: u16
  assumes "rb_ok rb"
  defines "k \<equiv> min (unat (rb_used rb)) (unat numbytes)"
  shows "\<exists>rb'. readOut rb numbytes = Inr (take k (unread rb), rb') \<and> rb_ok rb' \<and>
    unread rb' = drop k (unread rb) \<and> rb_NXT rb' = rb_NXT rb \<and> rb_buffer rb' = rb_buffer rb"
proof -
  let ?l = "unat (rb_LBR rb)" and ?u = "unat (rb_used rb)" and ?b = "rb_buffer rb"
  define rb' where "rb' = rb\<lparr>rb_LBR := of_nat ((?l + k) mod 65536)\<rparr>"
  have l: "?l < 65536" "length ?b = 65536" using assms(1) by (simp_all add: rb_ok_def less_WINDOW_SIZE)
  have l': "unat (rb_LBR rb') = (?l + k) mod 65536" by (simp add: rb'_def unat_of_nat)
  have ok: "rb_ok rb'" using assms(1) l' by (simp add: rb_ok_def less_WINDOW_SIZE rb'_def)
  have k: "k \<le> ?u" by (simp add: k_def)
  have u: "?u \<le> 65535" using room_used [OF assms(1)] by simp
  have split: "unread rb = ring_read ?b (?l + 1) k @ ring_read ?b (?l + 1 + k) (?u - k)"
    using ring_read_add [of ?b "?l + 1" k "?u - k"] k by (simp add: unread_def)
  have "unat (rb_used rb') = (unat (rb_NXT rb) + (65535 - (?l + k) mod 65536)) mod 65536"
    by (simp add: unat_rb_used [OF ok] l') (simp add: rb'_def)
  moreover have "unat (rb_NXT rb) = (?l + 1 + ?u) mod 65536" by (rule NXT_position [OF assms(1)])
  ultimately have "unat (rb_used rb') = ?u - k"
    using ring_advance [OF k u l(1)] by (simp only:)
  then have "unread rb' = ring_read ?b ((?l + k) mod 65536 + 1) (?u - k)"
    by (simp add: unread_def l') (simp add: rb'_def)
  also have "\<dots> = ring_read ?b (?l + 1 + k) (?u - k)"
    using l by (intro ring_read_cong) (simp add: mod_simps)
  finally have "unread rb' = drop k (unread rb)" by (simp add: split)
  moreover have "readOut rb numbytes = Inr (take k (unread rb), rb')"
    unfolding rb'_def k_def readOut_slices [OF assms(1)] by (simp add: split [unfolded k_def])
  moreover have "rb_NXT rb' = rb_NXT rb" "rb_buffer rb' = rb_buffer rb" by (simp_all add: rb'_def)
  ultimately show ?thesis using ok by blast
qed

section \<open>The write buffer\<close>

text \<open>
  \<open>pending\<close> are the bytes written and not yet sent, from \<open>NXT\<close> to \<open>LBW\<close>. Sending \<open>k\<close> of them
  moves \<open>NXT\<close>, as \<open>slidingWindow\<close> does.
\<close>

definition wb_ok :: "WriteBuffer \<Rightarrow> bool" where
  "wb_ok wb \<longleftrightarrow> length (wb_buffer wb) = 65536 \<and> wb_UNA wb < WINDOW_SIZE \<and> wb_NXT wb < WINDOW_SIZE \<and> wb_LBW wb < WINDOW_SIZE"

definition wb_pending :: "WriteBuffer \<Rightarrow> u32" where
  "wb_pending wb = (wb_LBW wb - wb_NXT wb + 1 + WINDOW_SIZE) mod WINDOW_SIZE"

definition pending :: "WriteBuffer \<Rightarrow> bytes" where
  "pending wb = ring_read (wb_buffer wb) (unat (wb_NXT wb)) (unat (wb_pending wb))"

definition advanceNXT :: "WriteBuffer \<Rightarrow> nat \<Rightarrow> WriteBuffer" where
  "advanceNXT wb k = wb\<lparr>wb_NXT := (wb_NXT wb + of_nat k) mod WINDOW_SIZE\<rparr>"

lemma length_pending [simp]: "length (pending wb) = unat (wb_pending wb)"
  by (simp add: pending_def)

lemma unat_wb_pending:
  assumes "wb_ok wb"
  shows "unat (wb_pending wb) = (unat (wb_LBW wb) + 1 + (65536 - unat (wb_NXT wb))) mod 65536"
proof -
  have x: "wb_NXT wb < WINDOW_SIZE" "unat (wb_LBW wb) < 65536"
    using assms by (simp_all add: wb_ok_def less_WINDOW_SIZE)
  have "wb_LBW wb - wb_NXT wb + 1 + WINDOW_SIZE = wb_LBW wb + 1 - wb_NXT wb + WINDOW_SIZE" by simp
  moreover have "unat ((wb_LBW wb + 1 - wb_NXT wb + WINDOW_SIZE) mod WINDOW_SIZE) =
      (unat (wb_LBW wb + 1) + (65536 - unat (wb_NXT wb))) mod 65536"
    using x(1) by (rule ring_sub)
  moreover have "unat (wb_LBW wb + 1) = unat (wb_LBW wb) + 1" using x(2) by (simp add: unat_word_ariths)
  ultimately show ?thesis by (simp only: wb_pending_def)
qed

lemma wb_pending_less: "unat (wb_pending wb) < 65536"
  by (simp add: wb_pending_def WINDOW_SIZE_mod)

lemma LBW_position:
  assumes "wb_ok wb"
  shows "(unat (wb_NXT wb) + unat (wb_pending wb)) mod 65536 = (unat (wb_LBW wb) + 1) mod 65536"
proof -
  have "unat (wb_NXT wb) \<le> 65536" using assms by (simp add: wb_ok_def less_WINDOW_SIZE)
  then have "unat (wb_NXT wb) + (unat (wb_LBW wb) + 1 + (65536 - unat (wb_NXT wb))) = unat (wb_LBW wb) + 1 + 65536"
    by simp
  then show ?thesis unfolding unat_wb_pending [OF assms] mod_add_right_eq by (simp only: mod_add_self2)
qed

lemma senderPayload_pending:
  assumes "wb_ok wb"
  shows "senderPayload wb (wb_LBW wb) = Inr (pending wb)"
proof -
  let ?x = "unat (wb_NXT wb)" and ?p = "unat (wb_pending wb)" and ?b = "wb_buffer wb"
  define first_seg where "first_seg = min (WINDOW_SIZE - wb_NXT wb) (wb_pending wb)"
  have x: "?x < 65536" "length ?b = 65536" using assms by (simp_all add: wb_ok_def less_WINDOW_SIZE)
  have "unat (WINDOW_SIZE - wb_NXT wb) = 65536 - ?x" using x by (simp add: unat_sub word_le_nat_alt)
  then have fs: "unat first_seg = min (65536 - ?x) ?p" by (simp add: first_seg_def unat_min_u32)
  then have ss: "unat (wb_pending wb - first_seg) = ?p - (65536 - ?x)"
    by (subst unat_sub) (auto simp: word_le_nat_alt)
  have idx: "unat (wb_NXT wb + first_seg) = ?x + min (65536 - ?x) ?p"
    using x fs by (simp add: unat_word_ariths)
  have "pending wb = take ?p (drop ?x ?b) @ take (?p - (65536 - ?x)) ?b"
    using x wb_pending_less [of wb] by (simp add: pending_def ring_read_split)
  with x show ?thesis
    by (simp add: senderPayload_def Let_def wb_pending_def [symmetric] first_seg_def [symmetric] ss idx)
      (use wb_pending_less [of wb] in \<open>auto simp: slice_range_def slice_of_def slice_cap_def min_def\<close>)
qed

lemma writeChunk_ring:
  assumes "wb_ok wb" "length chunk \<le> 65535"
  shows "writeChunk wb chunk =
    Inr (wb\<lparr>wb_buffer := ring_put (wb_buffer wb) (unat (wb_LBW wb) + 1) chunk,
      wb_LBW := of_nat ((unat (wb_LBW wb) + length chunk) mod 65536)\<rparr>)"
proof -
  let ?l = "unat (wb_LBW wb)" and ?b = "wb_buffer wb"
  define to_write :: u32 where "to_write = of_nat (length chunk)"
  define first_seg where "first_seg = min (WINDOW_SIZE - wb_LBW wb - 1) to_write"
  have l: "?l < 65536" "length ?b = 65536" using assms by (simp_all add: wb_ok_def less_WINDOW_SIZE)
  have n: "unat to_write = length chunk" using assms(2) by (simp add: to_write_def unat_of_nat)
  have "unat (WINDOW_SIZE - wb_LBW wb - 1) = 65535 - ?l"
  proof -
    have "WINDOW_SIZE - wb_LBW wb - 1 = 65535 - wb_LBW wb" by (simp add: WINDOW_SIZE_def)
    moreover have "unat (65535 - wb_LBW wb) = 65535 - ?l" using l by (subst unat_sub) (simp_all add: word_le_nat_alt)
    ultimately show ?thesis by (simp only:)
  qed
  then have fs: "unat first_seg = min (65535 - ?l) (length chunk)" by (simp add: first_seg_def unat_min_u32 n)
  then have ss: "unat (to_write - first_seg) = length chunk - (65535 - ?l)"
    using n by (subst unat_sub) (auto simp: word_le_nat_alt)
  have idx: "unat (wb_LBW wb + 1) = ?l + 1" "unat (wb_LBW wb + 1 + first_seg) = ?l + 1 + min (65535 - ?l) (length chunk)"
    using l fs by (simp_all add: unat_word_ariths)
  have lbw: "(wb_LBW wb + to_write) mod WINDOW_SIZE = of_nat ((?l + length chunk) mod 65536)"
    by (simp add: word_unat_eq_iff ring_add n unat_of_nat)
  have "ring_put ?b (?l + 1) chunk = copy_at (copy_at ?b (?l + 1) (take (65535 - ?l) chunk)) 0 (drop (65535 - ?l) chunk)"
    using l assms(2) by (simp add: ring_put_split)
  also have "take (65535 - ?l) chunk = take (unat first_seg) chunk" by (simp add: fs min_def)
  also have "drop (65535 - ?l) chunk = drop (unat first_seg) chunk" by (simp add: fs min_def)
  finally show ?thesis
    using l assms(2)
    by (simp add: writeChunk_def Let_def to_write_def [symmetric] first_seg_def [symmetric] ss idx lbw)
      (auto simp: slice_range_def slice_of_def slice_cap_def min_def)
qed

lemma writeChunk_pending:
  assumes "wb_ok wb" "unat (wb_pending wb) + length chunk \<le> 65535"
  shows "\<exists>wb'. writeChunk wb chunk = Inr wb' \<and> wb_ok wb' \<and> pending wb' = pending wb @ chunk \<and>
    wb_NXT wb' = wb_NXT wb \<and> wb_UNA wb' = wb_UNA wb"
proof -
  let ?x = "unat (wb_NXT wb)" and ?l = "unat (wb_LBW wb)" and ?p = "unat (wb_pending wb)" and ?b = "wb_buffer wb"
  define wb' where "wb' = wb\<lparr>wb_buffer := ring_put ?b (?l + 1) chunk,
    wb_LBW := of_nat ((?l + length chunk) mod 65536)\<rparr>"
  have b: "length ?b = 65536" using assms(1) by (simp add: wb_ok_def)
  have l': "unat (wb_LBW wb') = (?l + length chunk) mod 65536" by (simp add: wb'_def unat_of_nat)
  have ok: "wb_ok wb'" using assms(1) l' by (simp add: wb_ok_def less_WINDOW_SIZE wb'_def)
  have fields: "wb_NXT wb' = wb_NXT wb" "wb_UNA wb' = wb_UNA wb" by (simp_all add: wb'_def)
  have "(?x + unat (wb_pending wb')) mod 65536 = ((?l + length chunk) mod 65536 + 1) mod 65536"
    using LBW_position [OF ok] by (simp only: l' fields)
  also have "\<dots> = ((?l + 1) mod 65536 + length chunk) mod 65536" by (simp add: mod_simps)
  also have "\<dots> = (?x + (?p + length chunk)) mod 65536"
    by (simp only: LBW_position [OF assms(1), symmetric] mod_add_left_eq add.assoc)
  finally have p: "unat (wb_pending wb') = ?p + length chunk"
    by (rule ring_unique) (use assms(2) wb_pending_less in simp_all)
  have "ring_put ?b (?l + 1) chunk = ring_put ?b (?x + ?p) chunk"
    using LBW_position [OF assms(1)] b by (intro ring_put_cong) simp
  then have "pending wb' = pending wb @ chunk"
    using ring_read_put [of ?p chunk ?b ?x] assms(2) b by (simp add: pending_def p) (simp add: wb'_def)
  moreover have "writeChunk wb chunk = Inr wb'"
    using assms unfolding wb'_def by (intro writeChunk_ring) simp_all
  ultimately show ?thesis using ok fields by blast
qed

lemma advanceNXT_pending:
  assumes "wb_ok wb" "k \<le> unat (wb_pending wb)"
  shows "wb_ok (advanceNXT wb k) \<and> pending (advanceNXT wb k) = drop k (pending wb)"
proof -
  let ?x = "unat (wb_NXT wb)" and ?l = "unat (wb_LBW wb)" and ?p = "unat (wb_pending wb)" and ?b = "wb_buffer wb"
  let ?wb = "advanceNXT wb k"
  have b: "length ?b = 65536" using assms(1) by (simp add: wb_ok_def)
  have ok: "wb_ok ?wb" using assms(1) by (simp add: wb_ok_def advanceNXT_def)
  have x': "unat (wb_NXT ?wb) = (?x + k) mod 65536"
    using assms(2) wb_pending_less [of wb] by (simp add: advanceNXT_def ring_add unat_of_nat)
  have "(?x + k + unat (wb_pending ?wb)) mod 65536 = (unat (wb_NXT ?wb) + unat (wb_pending ?wb)) mod 65536"
    by (simp only: x' mod_add_left_eq)
  also have "\<dots> = (?l + 1) mod 65536" using LBW_position [OF ok] by (simp add: advanceNXT_def)
  also have "\<dots> = (?x + ?p) mod 65536" by (simp only: LBW_position [OF assms(1)])
  also have "?x + ?p = ?x + k + (?p - k)" using assms(2) by simp
  finally have p: "unat (wb_pending ?wb) = ?p - k"
    by (rule ring_unique) (use wb_pending_less [of wb] wb_pending_less [of ?wb] in simp_all)
  have "pending ?wb = ring_read ?b ((?x + k) mod 65536) (?p - k)"
    by (simp add: pending_def p x') (simp add: advanceNXT_def)
  also have "\<dots> = ring_read ?b (?x + k) (?p - k)" using b by (intro ring_read_cong) simp
  also have "\<dots> = drop k (pending wb)"
    using ring_read_add [of ?b ?x k "?p - k"] assms(2) by (simp add: pending_def)
  finally show ?thesis using ok by simp
qed


definition sendOut :: "WriteBuffer \<Rightarrow> nat \<Rightarrow> (bytes \<times> WriteBuffer) res" where
  "sendOut wb k = bindr (senderPayload wb (wb_LBW wb)) (\<lambda>payload.
     Inr (take k payload, advanceNXT wb (min k (length payload))))"

section \<open>Both buffers are bounded byte queues\<close>

datatype qop = Put bytes | Get nat

fun run_queue :: "('s \<Rightarrow> bytes \<Rightarrow> 's option res) \<Rightarrow> ('s \<Rightarrow> nat \<Rightarrow> (bytes \<times> 's) res) \<Rightarrow> 's \<Rightarrow> qop list \<Rightarrow> (bytes \<times> 's) option res" where
  "run_queue put get s [] = Inr (Some ([], s))"
| "run_queue put get s (Put xs # ops) = bindo (put s xs) (\<lambda>s'. run_queue put get s' ops)"
| "run_queue put get s (Get k # ops) = bindr (get s k) (\<lambda>(ys, s').
     bindo (run_queue put get s' ops) (\<lambda>(zs, s''). Inr (Some (ys @ zs, s''))))"

fun inputs :: "qop list \<Rightarrow> bytes" where
  "inputs [] = []"
| "inputs (Put xs # ops) = xs @ inputs ops"
| "inputs (Get k # ops) = inputs ops"

text \<open>A queue that holds \<open>n\<close> bytes never overflows its capacity in a run.\<close>

fun fits :: "nat \<Rightarrow> nat \<Rightarrow> qop list \<Rightarrow> bool" where
  "fits cap n [] \<longleftrightarrow> True"
| "fits cap n (Put xs # ops) \<longleftrightarrow> n + length xs \<le> cap \<and> fits cap (n + length xs) ops"
| "fits cap n (Get k # ops) \<longleftrightarrow> k < 65536 \<and> fits cap (n - k) ops"

locale byte_queue =
  fixes put :: "'s \<Rightarrow> bytes \<Rightarrow> 's option res"
    and get :: "'s \<Rightarrow> nat \<Rightarrow> (bytes \<times> 's) res"
    and invar :: "'s \<Rightarrow> bool"
    and content :: "'s \<Rightarrow> bytes"
    and capacity :: nat
  assumes put_ok: "invar s \<Longrightarrow> length (content s) + length xs \<le> capacity \<Longrightarrow>
      \<exists>s'. put s xs = Inr (Some s') \<and> invar s' \<and> content s' = content s @ xs"
    and get_ok: "invar s \<Longrightarrow> k < 65536 \<Longrightarrow>
      \<exists>s'. get s k = Inr (take k (content s), s') \<and> invar s' \<and> content s' = drop k (content s)"
begin

lemma run_fifo:
  assumes "invar s" "fits capacity (length (content s)) ops"
  shows "\<exists>out s'. run_queue put get s ops = Inr (Some (out, s')) \<and> invar s' \<and>
    out @ content s' = content s @ inputs ops"
  using assms
proof (induction ops arbitrary: s)
  case (Cons op ops)
  show ?case
  proof (cases op)
    case (Put xs)
    then obtain s' where s': "put s xs = Inr (Some s')" "invar s'" "content s' = content s @ xs"
      using put_ok [of s xs] Cons.prems by auto
    with Cons.IH [of s'] Cons.prems Put show ?thesis by auto
  next
    case (Get k)
    then obtain s' where s': "get s k = Inr (take k (content s), s')" "invar s'" "content s' = drop k (content s)"
      using get_ok [of s k] Cons.prems by auto
    moreover obtain out s'' where "run_queue put get s' ops = Inr (Some (out, s''))" "invar s''"
        "out @ content s'' = content s' @ inputs ops"
      using Cons.IH [of s'] s' Cons.prems Get by auto
    ultimately show ?thesis using Get by auto
  qed
qed simp

end

interpretation read_queue: byte_queue copyPayload "\<lambda>rb k. readOut rb (of_nat k)" rb_ok unread 65535
proof unfold_locales
  fix rb and xs :: bytes
  assume "rb_ok rb" "length (unread rb) + length xs \<le> 65535"
  then show "\<exists>rb'. copyPayload rb xs = Inr (Some rb') \<and> rb_ok rb' \<and> unread rb' = unread rb @ xs"
    using copyPayload_unread [of rb xs] room_used [of rb] by auto
next
  fix rb and k :: nat
  assume "rb_ok rb" "k < 65536"
  then show "\<exists>rb'. readOut rb (of_nat k) = Inr (take k (unread rb), rb') \<and> rb_ok rb' \<and> unread rb' = drop k (unread rb)"
    using readOut_unread [of rb "of_nat k"] by (auto simp: unat_of_nat min_def split: if_splits)
qed

interpretation write_queue: byte_queue "\<lambda>wb xs. bindr (writeChunk wb xs) (\<lambda>wb'. Inr (Some wb'))" sendOut wb_ok pending 65535
proof unfold_locales
  fix wb and xs :: bytes
  assume "wb_ok wb" "length (pending wb) + length xs \<le> 65535"
  then show "\<exists>wb'. bindr (writeChunk wb xs) (\<lambda>wb'. Inr (Some wb')) = Inr (Some wb') \<and> wb_ok wb' \<and> pending wb' = pending wb @ xs"
    using writeChunk_pending [of wb xs] by auto
next
  fix wb and k :: nat
  assume "wb_ok wb" "k < 65536"
  then show "\<exists>wb'. sendOut wb k = Inr (take k (pending wb), wb') \<and> wb_ok wb' \<and> pending wb' = drop k (pending wb)"
    using advanceNXT_pending [of wb "min k (unat (wb_pending wb))"]
    by (auto simp: sendOut_def senderPayload_pending min_def split: if_splits)
qed

section \<open>Properties\<close>

text \<open>
  C12. The read buffer is a bounded queue of bytes: whatever sequence of payloads the receiver
  copies in and the reader takes out, as long as no payload exceeds the free space, no slice
  panics, the copy loop ends, and the bytes read followed by the bytes still in the buffer are
  those that were there followed by those copied in.
\<close>

theorem read_buffer_fifo:
  assumes "rb_ok rb" "fits 65535 (length (unread rb)) ops"
  shows "\<exists>out rb'. run_queue copyPayload (\<lambda>rb k. readOut rb (of_nat k)) rb ops = Inr (Some (out, rb')) \<and>
    rb_ok rb' \<and> out @ unread rb' = unread rb @ inputs ops"
  using assms by (rule read_queue.run_fifo)

lemma newReadBuffer_ok: "rb_ok newReadBuffer" "unread newReadBuffer = []"
  by (simp_all add: rb_ok_def newReadBuffer_def WINDOW_SIZE_def unread_def rb_used_def)

lemma newWriteBuffer_ok: "wb_ok newWriteBuffer" "pending newWriteBuffer = []"
  by (simp_all add: wb_ok_def newWriteBuffer_def WINDOW_SIZE_def pending_def wb_pending_def)

theorem read_buffer_fifo_witness:
  "\<exists>out rb'. run_queue copyPayload (\<lambda>rb k. readOut rb (of_nat k)) newReadBuffer [Put [1, 2, 3], Get 2, Put [4]] =
      Inr (Some (out, rb')) \<and> rb_ok rb' \<and> out @ unread rb' = [1, 2, 3, 4]"
  using read_buffer_fifo [of newReadBuffer "[Put [1, 2, 3], Get 2, Put [4]]"] newReadBuffer_ok
  by (simp del: run_queue.simps)

text \<open>
  C13. The write buffer is a bounded queue of bytes as well: what \<open>VWrite\<close> copies in, in one or
  two pieces, \<open>SenderThread\<close> takes out unchanged and in order, as long as unsent bytes are not
  overwritten.
\<close>

theorem write_buffer_fifo:
  assumes "wb_ok wb" "fits 65535 (length (pending wb)) ops"
  shows "\<exists>out wb'. run_queue (\<lambda>wb xs. bindr (writeChunk wb xs) (\<lambda>wb'. Inr (Some wb'))) sendOut wb ops = Inr (Some (out, wb')) \<and>
    wb_ok wb' \<and> out @ pending wb' = pending wb @ inputs ops"
  using assms by (rule write_queue.run_fifo)

theorem write_buffer_fifo_witness:
  "\<exists>out wb'. run_queue (\<lambda>wb xs. bindr (writeChunk wb xs) (\<lambda>wb'. Inr (Some wb'))) sendOut newWriteBuffer
      [Put [1, 2, 3], Get 2, Put [4]] = Inr (Some (out, wb')) \<and> wb_ok wb' \<and> out @ pending wb' = [1, 2, 3, 4]"
  using write_buffer_fifo [of newWriteBuffer "[Put [1, 2, 3], Get 2, Put [4]]"] newWriteBuffer_ok
  by (simp del: run_queue.simps)

end
