(* ===== verification/Tcp_Receive.thy ===== *)
theory Tcp_Receive
  imports Tcp_Ring
begin

text \<open>
  \<open>pkg/tcpstack/tcpstack.go\<close>, fourth part: \<open>ReceiverThread\<close> and \<open>VRead\<close>. One turn of the
  receiver is a function of the socket and a segment; it may panic, and it may never return
  when it waits for a mutex that other code left locked. The theorems show that segments
  that arrive in any order are put together to the stream they were cut from, and what the
  reader gets is that stream.
\<close>

section \<open>The receiver\<close>

text \<open>
  What a turn does besides changing the socket: IP packets, messages to the goroutines of
  \<open>VClose\<close> and \<open>slidingWindow\<close>, and a goroutine that removes the socket after two minutes.
\<close>

datatype tcp_effect = Ip effect | ToFinChan u32 | ToAckChan TCPInfo | DeleteTCBLater

text \<open>
  A FIN arrives. In the states other than the two the code expects, the mutex that guards the
  state stays locked.
\<close>

definition finReceived :: "NormalSocket \<Rightarrow> (NormalSocket \<times> tcp_effect list) option" where
  "finReceived sock =
     (if so_stateMtx sock then None
      else if so_state sock = ESTABLISHED then Some (sock\<lparr>so_state := CLOSE_WAIT\<rparr>, [])
      else if so_state sock = FIN_WAIT_2 then Some (sock\<lparr>so_state := TIME_WAIT\<rparr>, [DeleteTCBLater])
      else Some (sock\<lparr>so_stateMtx := True\<rparr>, []))"

definition insertPayload :: "NormalSocket \<Rightarrow> u32 \<Rightarrow> bytes \<Rightarrow> NormalSocket option res" where
  "insertPayload sock seq payload =
     (case so_readBuffer sock of
        None \<Rightarrow> Inl NilPanic
      | Some rb \<Rightarrow>
          let cum = seq + of_nat (length payload)
          in bindo (copyPayload rb payload) (\<lambda>rb'.
               Inr (Some (sock\<lparr>so_cumReadNXT := cum,
                 so_readBuffer := Some (rb'\<lparr>rb_NXT := (cum - so_baseAck sock + WINDOW_SIZE) mod WINDOW_SIZE\<rparr>)\<rparr>))))"

text \<open>Every turn of the loop over early arrivals removes one, so their number is enough fuel.\<close>

fun drain_early :: "netstack \<Rightarrow> nat \<Rightarrow> NormalSocket \<Rightarrow> (NormalSocket \<times> tcp_effect list) option res" where
  "drain_early ns fuel sock =
     (if so_earlyPQ sock = [] \<or> \<not> ep_Priority (so_earlyPQ sock ! 0) \<le> so_cumReadNXT sock then Inr (Some (sock, []))
      else case fuel of
        0 \<Rightarrow> Inr None
      | Suc fuel' \<Rightarrow>
          bindr (heap_Pop (so_earlyPQ sock)) (\<lambda>(earlyPacket, q).
            let sock1 = sock\<lparr>so_earlyPQ := q\<rparr>
            in if ep_Priority (so_earlyPQ sock ! 0) < so_cumReadNXT sock then drain_early ns fuel' sock1
               else if ep_Flags earlyPacket AND ns_FlagFin ns \<noteq> 0 then
                 (case finReceived sock1 of
                    None \<Rightarrow> Inr None
                  | Some (sock2, es) \<Rightarrow> bindo (drain_early ns fuel' sock2) (\<lambda>(s, fs). Inr (Some (s, es @ fs))))
               else bindo (insertPayload sock1 (ep_Priority earlyPacket) (ep_Payload earlyPacket)) (drain_early ns fuel')))"

declare drain_early.simps [simp del]

definition receiverAck :: "netstack \<Rightarrow> NormalSocket \<Rightarrow> ReadBuffer \<Rightarrow> TCPInfo \<Rightarrow> TCPPacket" where
  "receiverAck ns sock rb received =
     \<lparr>tp_sourceIp = sk_RemoteAddr (ti_key received), tp_destIp = sk_LocalAddr (ti_key received), tp_payload = [],
      tp_flags = ns_FlagAck ns, tp_sourcePort = sk_RemotePort (ti_key received),
      tp_destPort = sk_LocalPort (ti_key received), tp_seqNum = ti_AckNum received, tp_ackNum = so_cumReadNXT sock,
      tp_window = ucast (rb_room rb)\<rparr>"

text \<open>After the segment itself: the early arrivals that now fit, and the acknowledgement.\<close>

definition receiveRest :: "netstack \<Rightarrow> Node \<Rightarrow> TCPInfo \<Rightarrow> NormalSocket \<times> tcp_effect list \<Rightarrow> (NormalSocket \<times> tcp_effect list) option res" where
  "receiveRest ns n received = (\<lambda>(sock, es).
     bindo (drain_early ns (length (so_earlyPQ sock)) sock) (\<lambda>(sock', fs).
       case so_readBuffer sock' of
         None \<Rightarrow> Inl NilPanic
       | Some rb \<Rightarrow>
           bindr (HandleSend ns n (sk_LocalAddr (ti_key received)) (marshallTCPPacket ns (receiverAck ns sock' rb received)) 6) (\<lambda>gs.
             Inr (Some (sock', es @ fs @ map Ip gs)))))"

definition earlyArrival :: "NormalSocket \<Rightarrow> TCPInfo \<Rightarrow> NormalSocket" where
  "earlyArrival sock received =
     (let ep = \<lparr>ep_Priority = ti_SeqNum received, ep_Index = so_index sock, ep_Flags = ti_Flag received, ep_Payload = ti_Payload received\<rparr>
      in sock\<lparr>so_index := so_index sock + 1, so_earlyPQ := heap_Push (so_earlyPQ sock) ep\<rparr>)"

definition ReceiverThread_step ::
  "netstack \<Rightarrow> Node \<Rightarrow> NormalSocket \<Rightarrow> TCPInfo \<Rightarrow> (NormalSocket \<times> tcp_effect list) option res" where
  "ReceiverThread_step ns n sock0 received =
     (if ti_Flag received AND ns_FlagAck ns = 0 then Inr (Some (sock0, []))
      else let sock = sock0\<lparr>so_ClientWindowSize := ti_WindowSize received\<rparr> in
        if so_unackedMtx sock then Inr None
        else if map_of (so_unackedFINs sock) (ti_AckNum received) \<noteq> None
        then Inr (Some (sock, [ToFinChan (ti_AckNum received)]))
        else if map_of (so_unackedNums sock) (ti_AckNum received) \<noteq> None \<and> ti_Payload received = []
        then Inr (Some (sock, [ToAckChan received]))
        else if so_cumReadNXT sock < ti_SeqNum received then Inr (Some (earlyArrival sock received, []))
        else case so_readBuffer sock of
          None \<Rightarrow> Inl NilPanic
        | Some rb \<Rightarrow>
            if ti_Flag received AND ns_FlagFin ns \<noteq> 0 then
              (case finReceived (sock\<lparr>so_cumReadNXT := so_cumReadNXT sock + 1\<rparr>) of
                 None \<Rightarrow> Inr None
               | Some r \<Rightarrow> receiveRest ns n received r)
            else if rb_room rb \<noteq> 0 then
              bindo (insertPayload sock (ti_SeqNum received) (ti_Payload received)) (\<lambda>sock'. receiveRest ns n received (sock', []))
            else Inr (Some (sock, [])))"

section \<open>The reader\<close>

datatype read_result = ReadClosed | ReadBlocked | ReadBytes bytes | FileError

text \<open>The last argument says that the bytes go to a file and writing it fails.\<close>

definition VRead :: "NormalSocket \<Rightarrow> u16 \<Rightarrow> bool \<Rightarrow> (NormalSocket \<times> read_result) res" where
  "VRead sock numbytes file_err =
     (if so_stateMtx sock then Inr (sock, ReadBlocked)
      else if so_state sock = CLOSE_WAIT \<or> so_state sock = LAST_ACK then Inr (sock, ReadClosed)
      else case so_readBuffer sock of
        None \<Rightarrow> Inl NilPanic
      | Some rb \<Rightarrow>
          if rb_used rb = 0 then Inr (sock, ReadBlocked)
          else bindr (readOut rb numbytes) (\<lambda>(toRead, rb').
            if file_err then Inr (sock\<lparr>so_readBuffer := Some (rb\<lparr>rb_buffer := rb_buffer rb'\<rparr>)\<rparr>, FileError)
            else Inr (sock\<lparr>so_readBuffer := Some rb'\<rparr>, ReadBytes toRead)))"

section \<open>Segments of a stream\<close>

text \<open>
  The peer's stream \<open>S\<close> starts behind its initial sequence number \<open>isn\<close> and does not wrap
  the sequence numbers; \<open>d\<close> bytes of it have been read, \<open>r\<close> received without a gap.
\<close>

definition offset :: "u32 \<Rightarrow> u32 \<Rightarrow> nat" where
  "offset isn q = unat q - (unat isn + 1)"

definition stream_seg :: "u32 \<Rightarrow> bytes \<Rightarrow> nat \<Rightarrow> u32 \<Rightarrow> bytes \<Rightarrow> bool" where
  "stream_seg isn S d q xs \<longleftrightarrow> isn < q \<and> xs \<noteq> [] \<and> offset isn q + length xs \<le> length S \<and>
     take (length xs) (drop (offset isn q) S) = xs \<and> offset isn q + length xs \<le> d + 65535"

definition early :: "u32 \<Rightarrow> NormalSocket \<Rightarrow> (nat \<times> bytes) set" where
  "early isn sock = (\<lambda>e. (offset isn (ep_Priority e), ep_Payload e)) ` set (so_earlyPQ sock)"

definition early_ok :: "netstack \<Rightarrow> u32 \<Rightarrow> bytes \<Rightarrow> nat \<Rightarrow> EarlyPriorityQueue \<Rightarrow> bool" where
  "early_ok ns isn S d q \<longleftrightarrow> pq_ok q \<and>
     (\<forall>e \<in> set q. stream_seg isn S d (ep_Priority e) (ep_Payload e) \<and> ep_Flags e AND ns_FlagFin ns = 0)"

definition received_upto :: "u32 \<Rightarrow> bytes \<Rightarrow> nat \<Rightarrow> nat \<Rightarrow> NormalSocket \<Rightarrow> bool" where
  "received_upto isn S d r sock \<longleftrightarrow> d \<le> r \<and> r \<le> length S \<and> so_baseAck sock = isn \<and>
     unat (so_cumReadNXT sock) = unat isn + 1 + r \<and>
     (\<exists>rb. so_readBuffer sock = Some rb \<and> rb_ok rb \<and> unread rb = take (r - d) (drop d S) \<and>
        unat (rb_NXT rb) = (1 + r) mod 65536)"

definition receiving :: "netstack \<Rightarrow> u32 \<Rightarrow> bytes \<Rightarrow> nat \<Rightarrow> nat \<Rightarrow> NormalSocket \<Rightarrow> bool" where
  "receiving ns isn S d r sock \<longleftrightarrow> unat isn + 1 + length S < 4294967296 \<and> received_upto isn S d r sock \<and>
     early_ok ns isn S d (so_earlyPQ sock) \<and> \<not> so_unackedMtx sock \<and> so_unackedFINs sock = []"

text \<open>Segments of \<open>Q\<close> that lead from position \<open>r\<close> to position \<open>r'\<close> without a gap.\<close>

inductive covers :: "(nat \<times> bytes) set \<Rightarrow> nat \<Rightarrow> nat \<Rightarrow> bool" for Q r where
  covers_refl: "covers Q r r"
| covers_step: "covers Q r m \<Longrightarrow> (m, c) \<in> Q \<Longrightarrow> covers Q r (m + length c)"

lemma covers_trans: "covers Q m r' \<Longrightarrow> covers Q r m \<Longrightarrow> covers Q r r'"
  by (induction rule: covers.induct) (auto intro: covers.intros)

lemma covers_mono: "covers Q r r' \<Longrightarrow> Q \<subseteq> Q' \<Longrightarrow> covers Q' r r'"
  by (induction rule: covers.induct) (auto intro: covers.intros)

lemma covers_le: "covers Q r r' \<Longrightarrow> r \<le> r'"
  by (induction rule: covers.induct) auto

lemma take_drop_extend:
  assumes "d \<le> r" "take (length xs) (drop r S) = xs"
  shows "take (r - d) (drop d S) @ xs = take (r + length xs - d) (drop d S)"
proof -
  have "take (r - d + length xs) (drop d S) = take (r - d) (drop d S) @ take (length xs) (drop (r - d) (drop d S))"
    by (rule take_add)
  with assms show ?thesis by simp
qed

lemma ring_position:
  assumes "unat cum = unat isn + k"
  shows "unat ((cum - isn + WINDOW_SIZE) mod WINDOW_SIZE) = k mod 65536"
proof -
  have "unat (cum - isn) = k" using assms by (subst unat_sub) (simp_all add: word_le_nat_alt)
  then show ?thesis by (simp add: ring_add)
qed

lemma insertPayload_next:
  assumes inv: "received_upto isn S d r sock" and bound: "unat isn + 1 + length S < 4294967296"
    and seg: "stream_seg isn S d (so_cumReadNXT sock) xs"
  shows "\<exists>cum rb. insertPayload sock (so_cumReadNXT sock) xs = Inr (Some (sock\<lparr>so_cumReadNXT := cum, so_readBuffer := Some rb\<rparr>)) \<and>
    received_upto isn S d (r + length xs) (sock\<lparr>so_cumReadNXT := cum, so_readBuffer := Some rb\<rparr>)"
proof -
  obtain rb where rb: "so_readBuffer sock = Some rb" "rb_ok rb" "unread rb = take (r - d) (drop d S)"
      "unat (rb_NXT rb) = (1 + r) mod 65536"
    and r: "d \<le> r" "r \<le> length S" "so_baseAck sock = isn" "unat (so_cumReadNXT sock) = unat isn + 1 + r"
    using inv by (auto simp: received_upto_def)
  have off: "offset isn (so_cumReadNXT sock) = r" using r by (simp add: offset_def)
  have xs: "r + length xs \<le> length S" "take (length xs) (drop r S) = xs" "r + length xs \<le> d + 65535"
    using seg by (simp_all add: stream_seg_def off)
  have "length (unread rb) = r - d" using r by (simp add: rb(3) del: length_unread)
  then have "length xs \<le> unat (rb_room rb)" using room_used [OF rb(2)] xs(3) r(1) by simp
  from copyPayload_unread [OF rb(2) this] obtain rb' where rb':
    "copyPayload rb xs = Inr (Some rb')" "rb_ok rb'" "unread rb' = unread rb @ xs"
    "unat (rb_NXT rb') = (unat (rb_NXT rb) + length xs) mod 65536" by blast
  define cum where "cum = so_cumReadNXT sock + of_nat (length xs)"
  have cum: "unat cum = unat isn + (1 + (r + length xs))"
    using r(4) xs(1) bound by (simp add: cum_def unat_word_ariths unat_of_nat)
  have nxt': "unat (rb_NXT rb') = (1 + (r + length xs)) mod 65536"
    unfolding rb'(4) rb(4) mod_add_left_eq by (simp add: add.assoc)
  then have "(cum - isn + WINDOW_SIZE) mod WINDOW_SIZE = rb_NXT rb'"
    unfolding word_unat_eq_iff ring_position [OF cum] by simp
  then have "insertPayload sock (so_cumReadNXT sock) xs = Inr (Some (sock\<lparr>so_cumReadNXT := cum, so_readBuffer := Some rb'\<rparr>))"
    using rb(1) rb'(1) r(3) by (simp add: insertPayload_def cum_def [symmetric])
  moreover have "unread rb' = take (r + length xs - d) (drop d S)"
    unfolding rb'(3) rb(3) by (rule take_drop_extend [OF r(1) xs(2)])
  ultimately show ?thesis
    using rb'(2) nxt' r(1,3) xs(1) cum
    by (intro exI [of _ cum] exI [of _ rb']) (simp add: received_upto_def)
qed

section \<open>Early arrivals\<close>

text \<open>
  From position \<open>r\<close>, with the segments \<open>Q\<close> at hand, the receiver got to \<open>r'\<close>: over segments of
  \<open>Q\<close>, keeping those of \<open>Q\<close> that lie ahead.
\<close>

definition advanced :: "u32 \<Rightarrow> (nat \<times> bytes) set \<Rightarrow> nat \<Rightarrow> nat \<Rightarrow> NormalSocket \<Rightarrow> bool" where
  "advanced isn Q r r' sock' \<longleftrightarrow> covers Q r r' \<and> early isn sock' \<subseteq> Q \<and>
     (\<forall>x \<in> Q. x \<in> early isn sock' \<or> fst x < r') \<and> (\<forall>x \<in> early isn sock'. r' < fst x)"

lemma early_content: "early isn sock = (\<lambda>c. (offset isn (fst c), snd (snd c))) ` set_mset (mset (map ep_content (so_earlyPQ sock)))"
  by (force simp: early_def ep_content_def)

lemma early_ok_content:
  "early_ok ns isn S d q \<longleftrightarrow> pq_ok q \<and> (\<forall>c \<in># mset (map ep_content q).
     stream_seg isn S d (fst c) (snd (snd c)) \<and> fst (snd c) AND ns_FlagFin ns = 0)"
  by (auto simp: early_ok_def ep_content_def)

lemma pop_early:
  assumes "early_ok ns isn S d (so_earlyPQ sock)" "so_earlyPQ sock \<noteq> []"
  shows "\<exists>x q. heap_Pop (so_earlyPQ sock) = Inr (x, q) \<and> early_ok ns isn S d q \<and>
    ep_Priority x = ep_Priority (so_earlyPQ sock ! 0) \<and> stream_seg isn S d (ep_Priority x) (ep_Payload x) \<and>
    ep_Flags x AND ns_FlagFin ns = 0 \<and> length (so_earlyPQ sock) = Suc (length q) \<and>
    early isn sock = insert (offset isn (ep_Priority x), ep_Payload x) (early isn (sock\<lparr>so_earlyPQ := q\<rparr>))"
proof -
  have "pq_ok (so_earlyPQ sock)" using assms(1) by (simp add: early_ok_def)
  from heap_Pop_correct [OF this assms(2)] obtain x q where x: "heap_Pop (so_earlyPQ sock) = Inr (x, q)" "pq_ok q"
    "ep_content x = ep_content (so_earlyPQ sock ! 0)"
    "mset (map ep_content (so_earlyPQ sock)) = add_mset (ep_content x) (mset (map ep_content q))"
    by blast
  have "early_ok ns isn S d q" "stream_seg isn S d (ep_Priority x) (ep_Payload x)" "ep_Flags x AND ns_FlagFin ns = 0"
    using assms(1) x(2) unfolding early_ok_content x(4) by (auto simp: ep_content_def)
  moreover have "length (so_earlyPQ sock) = Suc (length q)"
    using arg_cong [OF x(4), of size] by simp
  moreover have "early isn sock = insert (offset isn (ep_Priority x), ep_Payload x) (early isn (sock\<lparr>so_earlyPQ := q\<rparr>))"
    unfolding early_content x(4) by (simp add: ep_content_def del: mset_map)
  ultimately show ?thesis using x(1,3) by (simp add: ep_content_def)
qed

lemma early_ahead:
  assumes "early_ok ns isn S d (so_earlyPQ sock)" "unat (so_cumReadNXT sock) = unat isn + 1 + r"
    and "so_earlyPQ sock = [] \<or> so_cumReadNXT sock < ep_Priority (so_earlyPQ sock ! 0)"
  shows "advanced isn (early isn sock) r r sock"
proof -
  have "r < offset isn (ep_Priority e)" if e: "e \<in> set (so_earlyPQ sock)" for e
  proof -
    have "pq_ok (so_earlyPQ sock)" "so_earlyPQ sock \<noteq> []" using assms(1) e by (auto simp: early_ok_def)
    then have "ep_Priority (so_earlyPQ sock ! 0) \<le> fst (ep_content e)" using e by (intro pq_ok_front) simp_all
    with assms(3) e have "so_cumReadNXT sock < ep_Priority e" by (auto simp: ep_content_def)
    with assms(2) show ?thesis by (simp add: offset_def word_less_nat_alt)
  qed
  then show ?thesis by (auto simp: advanced_def early_def covers_refl)
qed

lemma advanced_insert:
  assumes "advanced isn Q m r' sock'" "covers (insert x Q) r m" "fst x < m"
  shows "advanced isn (insert x Q) r r' sock'"
proof -
  have "covers (insert x Q) m r'" using assms(1) by (auto simp: advanced_def intro: covers_mono)
  then have "covers (insert x Q) r r'" "m \<le> r'" using assms(2) by (auto intro: covers_trans covers_le)
  with assms show ?thesis by (auto simp: advanced_def)
qed

text \<open>One turn of the loop drops a packet that was received before or takes it into the buffer.\<close>

lemma drain_early_turn:
  assumes recv: "receiving ns isn S d r sock" and q: "so_earlyPQ sock \<noteq> []" "ep_Priority (so_earlyPQ sock ! 0) \<le> so_cumReadNXT sock"
  shows "\<exists>sock1 m x. drain_early ns (Suc fuel) sock = drain_early ns fuel sock1 \<and> receiving ns isn S d m sock1 \<and>
    length (so_earlyPQ sock) = Suc (length (so_earlyPQ sock1)) \<and> early isn sock = insert x (early isn sock1) \<and>
    covers (insert x (early isn sock1)) r m \<and> fst x < m"
proof -
  have inv: "early_ok ns isn S d (so_earlyPQ sock)" "received_upto isn S d r sock" "unat isn + 1 + length S < 4294967296"
      "unat (so_cumReadNXT sock) = unat isn + 1 + r"
    using recv by (simp_all add: receiving_def received_upto_def)
  obtain x q' where x: "heap_Pop (so_earlyPQ sock) = Inr (x, q')" "early_ok ns isn S d q'"
      "ep_Priority x = ep_Priority (so_earlyPQ sock ! 0)"
      "stream_seg isn S d (ep_Priority x) (ep_Payload x)" "ep_Flags x AND ns_FlagFin ns = 0" "length (so_earlyPQ sock) = Suc (length q')"
      "early isn sock = insert (offset isn (ep_Priority x), ep_Payload x) (early isn (sock\<lparr>so_earlyPQ := q'\<rparr>))"
    using pop_early [OF inv(1) q(1)] by (elim exE conjE)
  let ?s = "sock\<lparr>so_earlyPQ := q'\<rparr>"
  show ?thesis
  proof (cases "ep_Priority x < so_cumReadNXT sock")
    case True
    have "receiving ns isn S d r ?s" using recv x(2) by (simp add: receiving_def received_upto_def)
    moreover have "offset isn (ep_Priority x) < r"
      using True inv(4) x(4) by (auto simp: offset_def word_less_nat_alt stream_seg_def)
    moreover have "drain_early ns (Suc fuel) sock = drain_early ns fuel ?s"
      using q x(1,3) True by (simp add: drain_early.simps [of ns "Suc fuel"])
    ultimately show ?thesis using x(6,7)
      by (intro exI [of _ ?s] exI [of _ r] exI [of _ "(offset isn (ep_Priority x), ep_Payload x)"]) (simp add: covers_refl)
  next
    case False
    with q(2) x(3) have cum: "so_cumReadNXT sock = ep_Priority x" by simp
    have up: "received_upto isn S d r ?s" using inv(2) by (simp add: received_upto_def)
    obtain cum' rb where ins: "insertPayload ?s (ep_Priority x) (ep_Payload x) = Inr (Some (?s\<lparr>so_cumReadNXT := cum', so_readBuffer := Some rb\<rparr>))"
        and up': "received_upto isn S d (r + length (ep_Payload x)) (?s\<lparr>so_cumReadNXT := cum', so_readBuffer := Some rb\<rparr>)"
      using insertPayload_next [OF up inv(3), of "ep_Payload x"] x(4) cum by auto
    let ?t = "?s\<lparr>so_cumReadNXT := cum', so_readBuffer := Some rb\<rparr>"
    have "receiving ns isn S d (r + length (ep_Payload x)) ?t" using recv x(2) up' by (simp add: receiving_def)
    moreover have "offset isn (ep_Priority x) = r" using inv(4) cum by (simp add: offset_def)
    moreover have "early isn ?t = early isn ?s" by (simp add: early_def)
    moreover have "drain_early ns (Suc fuel) sock = drain_early ns fuel ?t"
      using q x(1,3,5) False ins by (simp add: drain_early.simps [of ns "Suc fuel"])
    ultimately show ?thesis using x(4,6,7)
      by (intro exI [of _ ?t] exI [of _ "r + length (ep_Payload x)"] exI [of _ "(r, ep_Payload x)"])
        (auto simp: stream_seg_def intro: covers.intros)
  qed
qed

lemma drain_early_receiving:
  assumes "receiving ns isn S d r sock" "length (so_earlyPQ sock) \<le> fuel"
  shows "\<exists>sock' r'. drain_early ns fuel sock = Inr (Some (sock', [])) \<and> receiving ns isn S d r' sock' \<and>
    advanced isn (early isn sock) r r' sock'"
  using assms
proof (induction fuel arbitrary: sock r)
  case 0
  then have "advanced isn (early isn sock) r r sock" by (intro early_ahead) (auto simp: receiving_def received_upto_def)
  with 0 show ?case by (auto simp: drain_early.simps)
next
  case (Suc fuel)
  show ?case
  proof (cases "so_earlyPQ sock = [] \<or> \<not> ep_Priority (so_earlyPQ sock ! 0) \<le> so_cumReadNXT sock")
    case True
    then have "advanced isn (early isn sock) r r sock"
      using Suc.prems(1) by (intro early_ahead) (auto simp: receiving_def received_upto_def)
    with True Suc.prems(1) show ?thesis by (auto simp: drain_early.simps)
  next
    case False
    then have q: "so_earlyPQ sock \<noteq> []" "ep_Priority (so_earlyPQ sock ! 0) \<le> so_cumReadNXT sock" by simp_all
    from drain_early_turn [OF Suc.prems(1) q, of fuel] obtain sock1 m x where
      turn: "drain_early ns (Suc fuel) sock = drain_early ns fuel sock1" "receiving ns isn S d m sock1"
        "length (so_earlyPQ sock) = Suc (length (so_earlyPQ sock1))" "early isn sock = insert x (early isn sock1)"
        "covers (insert x (early isn sock1)) r m" "fst x < m"
      by (elim exE conjE)
    then have "length (so_earlyPQ sock1) \<le> fuel" using Suc.prems(2) by simp
    from Suc.IH [OF turn(2) this] obtain sock' r' where
      "drain_early ns fuel sock1 = Inr (Some (sock', []))" "receiving ns isn S d r' sock'"
        "advanced isn (early isn sock1) m r' sock'"
      by (elim exE conjE)
    with turn(1) advanced_insert [OF this(3) turn(5,6)] show ?thesis unfolding turn(4) by auto
  qed
qed

section \<open>A data segment arrives\<close>

definition data_segment :: "netstack \<Rightarrow> TCPInfo \<Rightarrow> bool" where
  "data_segment ns p \<longleftrightarrow> ti_Flag p AND ns_FlagAck ns \<noteq> 0 \<and> ti_Flag p AND ns_FlagFin ns = 0"

definition can_reply :: "netstack \<Rightarrow> Node \<Rightarrow> TCPInfo \<Rightarrow> bool" where
  "can_reply ns n p \<longleftrightarrow> (\<forall>seg. \<exists>es. HandleSend ns n (sk_LocalAddr (ti_key p)) seg 6 = Inr es)"

lemma earlyArrival_receiving:
  assumes "receiving ns isn S d r sock" "data_segment ns p" "stream_seg isn S d (ti_SeqNum p) (ti_Payload p)"
  shows "receiving ns isn S d r (earlyArrival sock p)"
    and "early isn (earlyArrival sock p) = insert (offset isn (ti_SeqNum p), ti_Payload p) (early isn sock)"
proof -
  let ?e = "\<lparr>ep_Priority = ti_SeqNum p, ep_Index = so_index sock, ep_Flags = ti_Flag p, ep_Payload = ti_Payload p\<rparr>"
  have "pq_ok (so_earlyPQ sock)" using assms(1) by (simp add: receiving_def early_ok_def)
  note push = heap_Push_correct [OF this, of ?e]
  have "early_ok ns isn S d (heap_Push (so_earlyPQ sock) ?e)"
    using assms push(1) unfolding early_ok_content push(2) receiving_def data_segment_def by (auto simp: ep_content_def)
  then show "receiving ns isn S d r (earlyArrival sock p)"
    using assms(1) by (simp add: receiving_def received_upto_def earlyArrival_def Let_def)
  have "early isn (earlyArrival sock p) = (\<lambda>c. (offset isn (fst c), snd (snd c))) `
      set_mset (mset (map ep_content (heap_Push (so_earlyPQ sock) ?e)))"
    unfolding early_content by (simp add: earlyArrival_def Let_def)
  then show "early isn (earlyArrival sock p) = insert (offset isn (ti_SeqNum p), ti_Payload p) (early isn sock)"
    unfolding push(2) by (simp add: early_content ep_content_def del: mset_map)
qed

lemma receiveRest_receiving:
  assumes "receiving ns isn S d r sock" "can_reply ns n p"
  shows "\<exists>sock' r' es. receiveRest ns n p (sock, []) = Inr (Some (sock', es)) \<and> receiving ns isn S d r' sock' \<and>
    advanced isn (early isn sock) r r' sock'"
proof -
  from drain_early_receiving [OF assms(1) order_refl] obtain sock' r' where
    s': "drain_early ns (length (so_earlyPQ sock)) sock = Inr (Some (sock', []))" "receiving ns isn S d r' sock'"
      "advanced isn (early isn sock) r r' sock'"
    by (elim exE conjE)
  moreover obtain rb where "so_readBuffer sock' = Some rb" using s'(2) by (auto simp: receiving_def received_upto_def)
  moreover obtain es where "HandleSend ns n (sk_LocalAddr (ti_key p)) (marshallTCPPacket ns (receiverAck ns sock' rb p)) 6 = Inr es"
    using assms(2) by (auto simp: can_reply_def)
  ultimately show ?thesis by (auto simp: receiveRest_def)
qed

lemma receive_segment:
  assumes recv: "receiving ns isn S d r sock" and ahead: "\<forall>x \<in> early isn sock. r < fst x"
    and p: "data_segment ns p" "stream_seg isn S d (ti_SeqNum p) (ti_Payload p)" "r \<le> offset isn (ti_SeqNum p)"
    and send: "can_reply ns n p"
  shows "\<exists>sock' r' es. ReceiverThread_step ns n sock p = Inr (Some (sock', es)) \<and> receiving ns isn S d r' sock' \<and>
    advanced isn (insert (offset isn (ti_SeqNum p), ti_Payload p) (early isn sock)) r r' sock'"
proof -
  let ?s = "sock\<lparr>so_ClientWindowSize := ti_WindowSize p\<rparr>"
  let ?x = "(offset isn (ti_SeqNum p), ti_Payload p)"
  have inv: "receiving ns isn S d r ?s" and same: "early isn ?s = early isn sock"
    using recv by (simp_all add: receiving_def received_upto_def early_def)
  obtain rb where rb: "so_readBuffer sock = Some rb" "rb_ok rb" "unread rb = take (r - d) (drop d S)"
    and cum: "unat (so_cumReadNXT sock) = unat isn + 1 + r" and r: "d \<le> r" "r \<le> length S"
    and bound: "unat isn + 1 + length S < 4294967296" and up: "received_upto isn S d r ?s"
    and idle: "\<not> so_unackedMtx sock" "so_unackedFINs sock = []"
    using recv inv by (auto simp: receiving_def received_upto_def)
  have seq: "unat (ti_SeqNum p) = unat isn + 1 + offset isn (ti_SeqNum p)" "ti_Payload p \<noteq> []"
    using p(2) by (auto simp: stream_seg_def offset_def word_less_nat_alt)
  show ?thesis
  proof (cases "r < offset isn (ti_SeqNum p)")
    case True
    then have "so_cumReadNXT sock < ti_SeqNum p" using seq cum by (simp add: word_less_nat_alt)
    then have "ReceiverThread_step ns n sock p = Inr (Some (earlyArrival ?s p, []))"
      using p(1) idle seq(2) by (simp add: ReceiverThread_step_def data_segment_def)
    moreover note earlyArrival_receiving [OF inv p(1,2), unfolded same]
    ultimately show ?thesis using True ahead by (auto simp: advanced_def covers_refl)
  next
    case False
    with p(3) have off: "offset isn (ti_SeqNum p) = r" by simp
    with seq cum have eq: "ti_SeqNum p = so_cumReadNXT sock" by (simp add: word_unat_eq_iff)
    have "length (unread rb) = r - d" using r by (simp add: rb(3) del: length_unread)
    moreover have "r + length (ti_Payload p) \<le> d + 65535" "0 < length (ti_Payload p)"
      using p(2) seq(2) by (simp_all add: stream_seg_def off)
    ultimately have "0 < unat (rb_room rb)" using room_used [OF rb(2)] r(1) unfolding length_unread by linarith
    then have room: "rb_room rb \<noteq> 0" by auto
    obtain cum' rb' where ins: "insertPayload ?s (ti_SeqNum p) (ti_Payload p) = Inr (Some (?s\<lparr>so_cumReadNXT := cum', so_readBuffer := Some rb'\<rparr>))"
        and up': "received_upto isn S d (r + length (ti_Payload p)) (?s\<lparr>so_cumReadNXT := cum', so_readBuffer := Some rb'\<rparr>)"
      using insertPayload_next [OF up bound, of "ti_Payload p"] p(2) eq by auto
    let ?t = "?s\<lparr>so_cumReadNXT := cum', so_readBuffer := Some rb'\<rparr>"
    have step: "ReceiverThread_step ns n sock p = receiveRest ns n p (?t, [])"
      using room ins p(1) idle seq(2) rb(1) eq by (simp add: ReceiverThread_step_def data_segment_def)
    have "receiving ns isn S d (r + length (ti_Payload p)) ?t" "early isn ?t = early isn sock"
      using inv up' by (simp_all add: receiving_def early_def)
    with receiveRest_receiving [OF _ send] obtain sock' r' es where
      "receiveRest ns n p (?t, []) = Inr (Some (sock', es))" "receiving ns isn S d r' sock'"
        "advanced isn (early isn sock) (r + length (ti_Payload p)) r' sock'"
      by metis
    moreover from this(3) have "advanced isn (insert ?x (early isn sock)) r r' sock'"
      unfolding off by (rule advanced_insert) (use seq(2) in \<open>auto intro: covers.intros\<close>)
    ultimately show ?thesis using step by auto
  qed
qed

section \<open>Sessions\<close>

text \<open>A socket as \<open>VConnect\<close> and \<open>VAccept\<close> leave it.\<close>

definition fresh :: "u32 \<Rightarrow> NormalSocket \<Rightarrow> bool" where
  "fresh isn sock \<longleftrightarrow> so_baseAck sock = isn \<and> so_cumReadNXT sock = isn + 1 \<and> so_readBuffer sock = Some newReadBuffer \<and>
     so_earlyPQ sock = [] \<and> \<not> so_unackedMtx sock \<and> so_unackedFINs sock = []"

lemma fresh_connected: "fresh (ti_SeqNum ci) (connectedSocket sock ci)"
  by (simp add: fresh_def connectedSocket_def)

lemma fresh_accepting: "fresh (ti_SeqNum ci) (acceptingSocket sid sk ci)"
  by (simp add: fresh_def acceptingSocket_def connectingSocket_def)

lemma fresh_receiving:
  assumes "fresh isn sock" "unat isn + 1 + length S < 4294967296"
  shows "receiving ns isn S 0 0 sock" "early isn sock = {}"
proof -
  have "unat (isn + 1) = unat isn + 1" using assms(2) by (simp add: unat_word_ariths)
  then show "receiving ns isn S 0 0 sock"
    using assms newReadBuffer_ok early_queue.invar_empty
    by (simp add: fresh_def receiving_def received_upto_def early_ok_def newReadBuffer_def)
qed (use assms in \<open>simp add: fresh_def early_def\<close>)

text \<open>
  Segments of the stream arrive in any order, none of them from before the gap, none ahead of
  the window; the reader takes bytes out in between. \<open>out\<close> is what it has got so far.
\<close>

definition acceptable :: "netstack \<Rightarrow> Node \<Rightarrow> u32 \<Rightarrow> bytes \<Rightarrow> NormalSocket \<Rightarrow> bytes \<Rightarrow> TCPInfo \<Rightarrow> bool" where
  "acceptable ns n isn S sock out p \<longleftrightarrow> data_segment ns p \<and> can_reply ns n p \<and>
     stream_seg isn S (length out) (ti_SeqNum p) (ti_Payload p) \<and> so_cumReadNXT sock \<le> ti_SeqNum p"

inductive receives :: "netstack \<Rightarrow> Node \<Rightarrow> u32 \<Rightarrow> bytes \<Rightarrow> NormalSocket \<Rightarrow> bytes \<Rightarrow> bool" for ns n isn S where
  start: "fresh isn sock \<Longrightarrow> unat isn + 1 + length S < 4294967296 \<Longrightarrow> receives ns n isn S sock []"
| arrive: "receives ns n isn S sock out \<Longrightarrow> acceptable ns n isn S sock out p \<Longrightarrow>
    ReceiverThread_step ns n sock p = Inr (Some (sock', es)) \<Longrightarrow> receives ns n isn S sock' out"
| read: "receives ns n isn S sock out \<Longrightarrow> VRead sock k False = Inr (sock', ReadBytes ys) \<Longrightarrow>
    receives ns n isn S sock' (out @ ys)"

lemma stream_seg_mono: "stream_seg isn S d q xs \<Longrightarrow> d \<le> d' \<Longrightarrow> stream_seg isn S d' q xs"
  by (auto simp: stream_seg_def)

lemma VRead_receiving:
  assumes "receiving ns isn S d r sock" "VRead sock k False = Inr (sock', ReadBytes ys)"
  shows "receiving ns isn S (d + length ys) r sock'" "ys = take (length ys) (drop d S)" "early isn sock' = early isn sock"
proof -
  obtain rb where rb: "so_readBuffer sock = Some rb" "rb_ok rb" "unread rb = take (r - d) (drop d S)"
      "unat (rb_NXT rb) = (1 + r) mod 65536" and r: "d \<le> r" "r \<le> length S"
    using assms(1) by (auto simp: receiving_def received_upto_def)
  define m where "m = min (unat (rb_used rb)) (unat k)"
  from readOut_unread [OF rb(2), of k] obtain rb' where rb': "readOut rb k = Inr (take m (unread rb), rb')" "rb_ok rb'"
      "unread rb' = drop m (unread rb)" "rb_NXT rb' = rb_NXT rb"
    unfolding m_def by blast
  have "length (unread rb) = r - d" using r by (simp add: rb(3) del: length_unread)
  then have m: "m \<le> r - d" by (simp add: m_def)
  have s': "sock' = sock\<lparr>so_readBuffer := Some rb'\<rparr>" and ys: "ys = take m (unread rb)"
    using assms(2) rb(1) rb'(1) by (auto simp: VRead_def split: if_splits)
  have ys': "ys = take m (drop d S)" "length ys = m" using m r by (simp_all add: ys rb(3) min_absorb1)
  then show "ys = take (length ys) (drop d S)" by simp
  show "early isn sock' = early isn sock" by (simp add: s' early_def)
  have "drop m (take (r - d) (drop d S)) = take (r - (d + m)) (drop (d + m) S)"
    using m by (simp add: drop_take add.commute)
  moreover have "early_ok ns isn S (d + m) (so_earlyPQ sock)"
    using assms(1) by (auto simp: receiving_def early_ok_def intro: stream_seg_mono)
  ultimately show "receiving ns isn S (d + length ys) r sock'"
    using assms(1) rb(3,4) rb'(2-4) m r by (simp add: receiving_def received_upto_def s' ys'(2))
qed

lemma receives_receiving:
  assumes "receives ns n isn S sock out"
  shows "\<exists>r. receiving ns isn S (length out) r sock \<and> take (length out) S = out \<and> (\<forall>x \<in> early isn sock. r < fst x)"
  using assms
proof (induction rule: receives.induct)
  case (start sock)
  then show ?case using fresh_receiving(1) [of isn sock S ns] fresh_receiving(2) [of isn sock S] by auto
next
  case (arrive sock out p sock' es)
  then obtain r where r: "receiving ns isn S (length out) r sock" "take (length out) S = out" "\<forall>x \<in> early isn sock. r < fst x"
    by blast
  have "unat (so_cumReadNXT sock) = unat isn + 1 + r" using r(1) by (simp add: receiving_def received_upto_def)
  then have "r \<le> offset isn (ti_SeqNum p)"
    using arrive.hyps(2) by (auto simp: acceptable_def offset_def word_le_nat_alt)
  with arrive.hyps(2) obtain sock1 r' es1 where
    "ReceiverThread_step ns n sock p = Inr (Some (sock1, es1))" "receiving ns isn S (length out) r' sock1"
      "advanced isn (insert (offset isn (ti_SeqNum p), ti_Payload p) (early isn sock)) r r' sock1"
    using receive_segment [OF r(1,3), of p n] unfolding acceptable_def by blast
  with arrive.hyps(3) r(2) show ?case by (auto simp: advanced_def)
next
  case (read sock out k sock' ys)
  then obtain r where r: "receiving ns isn S (length out) r sock" "take (length out) S = out" "\<forall>x \<in> early isn sock. r < fst x"
    by blast
  note v = VRead_receiving [OF r(1) read.hyps(2)]
  have "take (length out + length ys) S = out @ ys" unfolding take_add r(2) using v(2) by simp
  with v(1,3) r(3) show ?case by auto
qed

section \<open>Cutting a stream into segments\<close>

fun segments :: "nat \<Rightarrow> bytes list \<Rightarrow> (nat \<times> bytes) list" where
  "segments k [] = []"
| "segments k (c # cs) = (k, c) # segments (k + length c) cs"

lemma segments_ge: "(j, c) \<in> set (segments k cs) \<Longrightarrow> k \<le> j"
proof (induction cs arbitrary: k)
  case (Cons b cs)
  from Cons.prems show ?case using Cons.IH [of "k + length b"] by auto
qed simp

lemma segments_part:
  "(j, c) \<in> set (segments k cs) \<Longrightarrow>
     j + length c \<le> k + length (concat cs) \<and> take (length c) (drop (j - k) (concat cs)) = c"
proof (induction cs arbitrary: k)
  case (Cons b cs)
  show ?case
  proof (cases "(j, c) = (k, b)")
    case False
    with Cons.prems have j: "(j, c) \<in> set (segments (k + length b) cs)" by auto
    with Cons.IH [OF j] segments_ge [OF j] show ?thesis by (simp add: drop_append)
  qed simp
qed simp

lemma segments_next:
  "(j, c) \<in> set (segments k cs) \<Longrightarrow>
     j + length c = k + length (concat cs) \<or> (\<exists>c'. (j + length c, c') \<in> set (segments k cs))"
proof (induction cs arbitrary: k)
  case (Cons b cs)
  show ?case
  proof (cases "(j, c) = (k, b)")
    case True
    then show ?thesis by (cases cs) auto
  next
    case False
    with Cons.prems Cons.IH [of "k + length b"] show ?thesis by auto
  qed
qed simp

lemma segments_order:
  "(j, c) \<in> set (segments k cs) \<Longrightarrow> (j', c') \<in> set (segments k cs) \<Longrightarrow> j < j' \<Longrightarrow> j + length c \<le> j'"
proof (induction cs arbitrary: k)
  case (Cons b cs)
  from Cons.prems show ?case
    using Cons.IH [of "k + length b"] segments_ge [of j c "k + length b" cs] segments_ge [of j' c' "k + length b" cs] by auto
qed simp

lemma segments_unique:
  assumes "(j, c) \<in> set (segments k cs)" "(j, c') \<in> set (segments k cs)" "\<forall>c \<in> set cs. c \<noteq> []"
  shows "c = c'"
  using assms
proof (induction cs arbitrary: k)
  case (Cons b cs)
  have "0 < length b" using Cons.prems(3) by simp
  then show ?case
    using Cons.IH [of "k + length b"] Cons.prems segments_ge [of j c "k + length b" cs] segments_ge [of j c' "k + length b" cs]
    by auto
qed simp

lemma segments_nonempty: "(j, c) \<in> set (segments k cs) \<Longrightarrow> c \<in> set cs"
  by (induction cs arbitrary: k) auto

lemma segments_distinct: "\<forall>c \<in> set cs. c \<noteq> [] \<Longrightarrow> distinct (segments k cs)"
proof (induction cs arbitrary: k)
  case (Cons b cs)
  then show ?case using segments_ge [of k b "k + length b" cs] by auto
qed simp

text \<open>
  The receiver stands at the start of a segment or at the end; every segment before that has
  arrived, and every segment that has arrived lies before that or waits.
\<close>

definition in_step :: "(nat \<times> bytes) set \<Rightarrow> nat \<Rightarrow> (nat \<times> bytes) set \<Rightarrow> nat \<Rightarrow> bool" where
  "in_step Sg len A r \<longleftrightarrow> (r = len \<or> (\<exists>c. (r, c) \<in> Sg)) \<and> (\<forall>x \<in> Sg. fst x < r \<longrightarrow> x \<in> A)"

lemma covers_in_step:
  assumes "covers Q r r'" "Q \<subseteq> set (segments 0 cs)" "Q \<subseteq> A" "\<forall>c \<in> set cs. c \<noteq> []"
    and "in_step (set (segments 0 cs)) (length (concat cs)) A r"
  shows "in_step (set (segments 0 cs)) (length (concat cs)) A r'"
  using assms
proof (induction rule: covers.induct)
  case (covers_step m c)
  then have m: "in_step (set (segments 0 cs)) (length (concat cs)) A m" and c: "(m, c) \<in> set (segments 0 cs)" "(m, c) \<in> A"
    by auto
  have "x \<in> A" if x: "x \<in> set (segments 0 cs)" "fst x < m + length c" for x
  proof -
    consider "fst x < m" | "fst x = m" | "m < fst x" by linarith
    then show ?thesis
    proof cases
      case 1
      with m x show ?thesis by (simp add: in_step_def)
    next
      case 2
      then have "x = (m, c)" using segments_unique [OF _ c(1) covers_step.prems(3), of "snd x"] x(1) by (cases x) auto
      with c(2) show ?thesis by simp
    next
      case 3
      then have "m + length c \<le> fst x" using segments_order [OF c(1), of "fst x" "snd x"] x(1) by simp
      with x(2) show ?thesis by simp
    qed
  qed
  moreover have "m + length c = length (concat cs) \<or> (\<exists>c'. (m + length c, c') \<in> set (segments 0 cs))"
    using segments_next [OF c(1)] by simp
  ultimately show ?case by (simp add: in_step_def)
qed

definition caught_up :: "u32 \<Rightarrow> bytes list \<Rightarrow> (nat \<times> bytes) set \<Rightarrow> nat \<Rightarrow> NormalSocket \<Rightarrow> bool" where
  "caught_up isn cs A r sock \<longleftrightarrow> A \<subseteq> set (segments 0 cs) \<and> in_step (set (segments 0 cs)) (length (concat cs)) A r \<and>
     early isn sock \<subseteq> A \<and> (\<forall>x \<in> A. x \<in> early isn sock \<or> fst x < r) \<and> (\<forall>x \<in> early isn sock. r < fst x)"

lemma caught_up_advanced:
  assumes "caught_up isn cs A r sock" "x \<in> set (segments 0 cs)" "\<forall>c \<in> set cs. c \<noteq> []"
    and "advanced isn (insert x (early isn sock)) r r' sock'"
  shows "caught_up isn cs (insert x A) r' sock'"
proof -
  have le: "r \<le> r'" using assms(4) by (auto simp: advanced_def intro: covers_le)
  have sub: "insert x (early isn sock) \<subseteq> set (segments 0 cs)" "insert x (early isn sock) \<subseteq> insert x A"
    using assms(1,2) by (auto simp: caught_up_def)
  have step: "in_step (set (segments 0 cs)) (length (concat cs)) (insert x A) r"
    using assms(1) by (auto simp: caught_up_def in_step_def)
  have cov: "covers (insert x (early isn sock)) r r'" using assms(4) by (simp add: advanced_def)
  note covers_in_step [OF cov sub assms(3) step]
  moreover have "y \<in> early isn sock' \<or> fst y < r'" if "y \<in> insert x A" for y
  proof -
    have "y \<in> insert x (early isn sock) \<or> fst y < r" using assms(1) that by (auto simp: caught_up_def)
    with assms(4) le show ?thesis unfolding advanced_def by (metis order_less_le_trans)
  qed
  ultimately show ?thesis using assms(1,2,4) sub by (auto simp: caught_up_def advanced_def)
qed

text \<open>When all segments have arrived, the receiver is at the end and nothing waits.\<close>

lemma caught_up_all:
  assumes "caught_up isn cs (set (segments 0 cs)) r sock" "\<forall>c \<in> set cs. c \<noteq> []"
  shows "r = length (concat cs) \<and> early isn sock = {}"
proof -
  have r: "r = length (concat cs)"
    using assms(1) by (fastforce simp: caught_up_def in_step_def)
  moreover have "fst x < length (concat cs)" if "x \<in> set (segments 0 cs)" for x
  proof -
    have "0 < length (snd x)" using segments_nonempty [of "fst x" "snd x" 0 cs] that assms(2) by auto
    moreover have "fst x + length (snd x) \<le> length (concat cs)"
      using segments_part [of "fst x" "snd x" 0 cs] that by simp
    ultimately show ?thesis by linarith
  qed
  ultimately show ?thesis using assms(1) by (fastforce simp: caught_up_def)
qed

fun receive_all :: "netstack \<Rightarrow> Node \<Rightarrow> NormalSocket \<Rightarrow> TCPInfo list \<Rightarrow> (NormalSocket \<times> tcp_effect list) option res" where
  "receive_all ns n sock [] = Inr (Some (sock, []))"
| "receive_all ns n sock (p # ps) = bindo (ReceiverThread_step ns n sock p) (\<lambda>(sock', es).
     bindo (receive_all ns n sock' ps) (\<lambda>(sock'', fs). Inr (Some (sock'', es @ fs))))"

definition piece :: "u32 \<Rightarrow> TCPInfo \<Rightarrow> nat \<times> bytes" where
  "piece isn p = (offset isn (ti_SeqNum p), ti_Payload p)"

lemma receive_all_caught_up:
  assumes "receiving ns isn (concat cs) 0 r sock" "caught_up isn cs A r sock"
    and "\<forall>c \<in> set cs. c \<noteq> []" "length (concat cs) \<le> 65535"
    and "distinct (map (piece isn) ps)" "piece isn ` set ps \<inter> A = {}" "piece isn ` set ps \<subseteq> set (segments 0 cs)"
    and "\<forall>p \<in> set ps. data_segment ns p \<and> can_reply ns n p \<and> isn < ti_SeqNum p"
  shows "\<exists>sock' es r'. receive_all ns n sock ps = Inr (Some (sock', es)) \<and> receiving ns isn (concat cs) 0 r' sock' \<and>
    caught_up isn cs (piece isn ` set ps \<union> A) r' sock'"
  using assms
proof (induction ps arbitrary: sock r A)
  case (Cons p ps)
  have x: "(offset isn (ti_SeqNum p), ti_Payload p) \<in> set (segments 0 cs)" using Cons.prems(7) by (auto simp: piece_def)
  have new: "piece isn p \<notin> A" using Cons.prems(6) by auto
  then have le: "r \<le> offset isn (ti_SeqNum p)"
    using Cons.prems(2) x by (fastforce simp: caught_up_def in_step_def piece_def)
  have seg: "stream_seg isn (concat cs) 0 (ti_SeqNum p) (ti_Payload p)"
    using segments_part [OF x] segments_nonempty [OF x] Cons.prems(3,4,8) by (auto simp: stream_seg_def)
  have ahead: "\<forall>x \<in> early isn sock. r < fst x" using Cons.prems(2) by (simp add: caught_up_def)
  obtain sock1 r1 es1 where s1: "ReceiverThread_step ns n sock p = Inr (Some (sock1, es1))"
      "receiving ns isn (concat cs) 0 r1 sock1" "advanced isn (insert (piece isn p) (early isn sock)) r r1 sock1"
    using receive_segment [OF Cons.prems(1) ahead _ seg le, of n] Cons.prems(8) unfolding piece_def by auto
  have "caught_up isn cs (insert (piece isn p) A) r1 sock1"
    using Cons.prems(2) _ Cons.prems(3) s1(3) by (rule caught_up_advanced) (use x in \<open>simp add: piece_def\<close>)
  moreover have "piece isn ` set ps \<inter> insert (piece isn p) A = {}" using Cons.prems(5,6) by auto
  ultimately obtain sock' es r' where "receive_all ns n sock1 ps = Inr (Some (sock', es))"
      "receiving ns isn (concat cs) 0 r' sock'" "caught_up isn cs (piece isn ` set ps \<union> insert (piece isn p) A) r' sock'"
    using Cons.IH [OF s1(2) _ Cons.prems(3,4), of "insert (piece isn p) A"] Cons.prems(5,7,8) by auto
  with s1(1) show ?case by auto
qed auto

lemma receive_all_pieces:
  assumes "fresh isn sock" "unat isn + 1 + length (concat cs) < 4294967296"
    and "\<forall>c \<in> set cs. c \<noteq> []" "length (concat cs) \<le> 65535"
    and "mset (map (piece isn) ps) = mset (segments 0 cs)"
    and "\<forall>p \<in> set ps. data_segment ns p \<and> can_reply ns n p \<and> isn < ti_SeqNum p"
  shows "\<exists>sock' es rb. receive_all ns n sock ps = Inr (Some (sock', es)) \<and> so_readBuffer sock' = Some rb \<and>
    unread rb = concat cs \<and> so_cumReadNXT sock' = isn + 1 + of_nat (length (concat cs)) \<and> so_earlyPQ sock' = []"
proof -
  note start = fresh_receiving(1) [OF assms(1,2), of ns] fresh_receiving(2) [OF assms(1,2)]
  have "caught_up isn cs {} 0 sock" using start(2) by (cases cs) (auto simp: caught_up_def in_step_def)
  moreover have "distinct (map (piece isn) ps)"
    using segments_distinct [OF assms(3)] assms(5) by (metis mset_eq_imp_distinct_iff)
  moreover have pieces: "piece isn ` set ps = set (segments 0 cs)" using arg_cong [OF assms(5), of set_mset] by simp
  ultimately obtain sock' es r where s': "receive_all ns n sock ps = Inr (Some (sock', es))"
      "receiving ns isn (concat cs) 0 r sock'" "caught_up isn cs (set (segments 0 cs)) r sock'"
    using receive_all_caught_up [OF start(1) _ assms(3,4), of "{}" ps n] assms(6) by auto
  have r: "r = length (concat cs)" "early isn sock' = {}" using caught_up_all [OF s'(3) assms(3)] by simp_all
  then obtain rb where "so_readBuffer sock' = Some rb" "unread rb = concat cs"
      and cum: "unat (so_cumReadNXT sock') = unat isn + 1 + length (concat cs)"
    using s'(2) by (auto simp: receiving_def received_upto_def)
  moreover have "so_cumReadNXT sock' = isn + 1 + of_nat (length (concat cs))"
    using cum assms(2) by (simp add: word_unat_eq_iff unat_word_ariths unat_of_nat del: length_concat)
  moreover have "so_earlyPQ sock' = []" using r(2) by (simp add: early_def)
  ultimately show ?thesis using s'(1) by auto
qed

section \<open>Properties\<close>

text \<open>
  C2. The receiving side of a connection refines the peer's byte stream. In every state that
  arrivals, in any order and within the window, and reads lead to, what the reader got followed
  by what is in the buffer is a prefix of the stream, exactly as long as the sequence number the
  receiver acknowledges says; and on every further such segment the receiver returns: it does
  not panic, wait or loop.
\<close>

theorem stream_in_order:
  assumes "receives ns n isn S sock out"
  shows "\<exists>r rb. so_readBuffer sock = Some rb \<and> out @ unread rb = take r S \<and> so_cumReadNXT sock = isn + 1 + of_nat r \<and>
    (\<forall>p. acceptable ns n isn S sock out p \<longrightarrow> (\<exists>sock' es. ReceiverThread_step ns n sock p = Inr (Some (sock', es))))"
proof -
  from receives_receiving [OF assms] obtain r where
    r: "receiving ns isn S (length out) r sock" "take (length out) S = out" "\<forall>x \<in> early isn sock. r < fst x"
    by blast
  then obtain rb where rb: "so_readBuffer sock = Some rb" "unread rb = take (r - length out) (drop (length out) S)"
    and le: "length out \<le> r" "r \<le> length S" "unat isn + 1 + length S < 4294967296"
    and cum: "unat (so_cumReadNXT sock) = unat isn + 1 + r"
    by (auto simp: receiving_def received_upto_def)
  have "out @ unread rb = take r S" using r(2) rb(2) take_add [of "length out" "r - length out" S] le(1) by simp
  moreover have "so_cumReadNXT sock = isn + 1 + of_nat r"
    using cum le by (simp add: word_unat_eq_iff unat_word_ariths unat_of_nat)
  moreover have "\<exists>sock' es. ReceiverThread_step ns n sock p = Inr (Some (sock', es))"
    if p: "acceptable ns n isn S sock out p" for p
  proof -
    have "r \<le> offset isn (ti_SeqNum p)" using p cum by (auto simp: acceptable_def offset_def word_le_nat_alt)
    with receive_segment [OF r(1,3)] p show ?thesis unfolding acceptable_def by blast
  qed
  ultimately show ?thesis using rb(1) by blast
qed

definition ex_key :: SocketTableKey where
  "ex_key = \<lparr>sk_LocalAddr = Addr4 0x0a000001, sk_LocalPort = 20007, sk_RemoteAddr = Addr4 0x0a000002, sk_RemotePort = 80\<rparr>"

definition ex_data :: "u32 \<Rightarrow> bytes \<Rightarrow> TCPInfo" where
  "ex_data seq xs = \<lparr>ti_key = ex_key, ti_Flag = 0x10, ti_SeqNum = seq, ti_AckNum = 6001, ti_WindowSize = 65535, ti_Payload = xs\<rparr>"

definition ex_receiver :: NormalSocket where
  "ex_receiver = (acceptingSocket 1 (flipSocketKeyFields ex_key) (ex_data 5000 []))\<lparr>so_state := ESTABLISHED\<rparr>"

lemma ex_receiver_fresh: "fresh 5000 ex_receiver"
  using fresh_accepting [of "ex_data 5000 []" 1 "flipSocketKeyFields ex_key"]
  by (simp add: ex_receiver_def fresh_def ex_data_def)

lemma ex_data_good:
  "data_segment ref_netstack (ex_data seq xs)" "can_reply ref_netstack (lan_host 0x0a000002 0x0a000001) (ex_data seq xs)"
  using lan_host_sends(2) [of ref_netstack]
  by (auto simp: data_segment_def ex_data_def ex_key_def ref_netstack_def can_reply_def)

theorem stream_in_order_witness:
  "receives ref_netstack (lan_host 0x0a000002 0x0a000001) 5000 [1, 2, 3] ex_receiver [] \<and>
   (\<exists>sock' es. ReceiverThread_step ref_netstack (lan_host 0x0a000002 0x0a000001) ex_receiver (ex_data 5003 [3]) = Inr (Some (sock', es)))"
proof
  show r: "receives ref_netstack (lan_host 0x0a000002 0x0a000001) 5000 [1, 2, 3] ex_receiver []"
    by (rule receives.start [OF ex_receiver_fresh]) simp
  have "acceptable ref_netstack (lan_host 0x0a000002 0x0a000001) 5000 [1, 2, 3] ex_receiver [] (ex_data 5003 [3])"
    using ex_data_good ex_receiver_fresh by (simp add: acceptable_def fresh_def stream_seg_def offset_def) (simp add: ex_data_def)
  with stream_in_order [OF r]
  show "\<exists>sock' es. ReceiverThread_step ref_netstack (lan_host 0x0a000002 0x0a000001) ex_receiver (ex_data 5003 [3]) = Inr (Some (sock', es))"
    by blast
qed

text \<open>
  C4. Reordering is repaired: cut a stream of at most 65535 bytes into segments in any way, and
  let them arrive in any order. Afterwards the read buffer holds the stream, nothing waits, and
  the receiver acknowledges all of it.
\<close>

theorem reassembly:
  assumes "fresh isn sock" "unat isn + 1 + length (concat cs) < 4294967296"
    and "\<forall>c \<in> set cs. c \<noteq> []" "length (concat cs) \<le> 65535"
    and "mset (map (piece isn) ps) = mset (segments 0 cs)"
    and "\<forall>p \<in> set ps. data_segment ns p \<and> can_reply ns n p \<and> isn < ti_SeqNum p"
  shows "\<exists>sock' es rb. receive_all ns n sock ps = Inr (Some (sock', es)) \<and> so_readBuffer sock' = Some rb \<and>
    unread rb = concat cs \<and> so_cumReadNXT sock' = isn + 1 + of_nat (length (concat cs)) \<and> so_earlyPQ sock' = []"
  using assms by (rule receive_all_pieces)

theorem reassembly_witness:
  "\<exists>sock' es rb. receive_all ref_netstack (lan_host 0x0a000002 0x0a000001) ex_receiver
       [ex_data 5003 [3], ex_data 5004 [4, 5], ex_data 5001 [1, 2]] = Inr (Some (sock', es)) \<and>
     so_readBuffer sock' = Some rb \<and> unread rb = [1, 2, 3, 4, 5] \<and> so_cumReadNXT sock' = 5006"
proof -
  let ?ps = "[ex_data 5003 [3], ex_data 5004 [4, 5], ex_data 5001 [1, 2]]" and ?cs = "[[1, 2], [3], [4, 5]] :: bytes list"
  have "mset (map (piece 5000) ?ps) = mset (segments 0 ?cs)"
    by (simp add: piece_def ex_data_def offset_def) (simp add: numeral_2_eq_2 numeral_3_eq_3)
  moreover have "\<forall>p \<in> set ?ps. data_segment ref_netstack p \<and> can_reply ref_netstack (lan_host 0x0a000002 0x0a000001) p \<and> 5000 < ti_SeqNum p"
    using ex_data_good by (simp, simp add: ex_data_def)
  ultimately show ?thesis
    using reassembly [OF ex_receiver_fresh, of ?cs ?ps ref_netstack "lan_host 0x0a000002 0x0a000001"] by auto
qed

section \<open>What the receiver does not handle\<close>

text \<open>
  A segment that was received before is not recognised: the receiver goes back to its end,
  and acknowledges less than it did before.
\<close>

lemma old_segment_rewinds:
  assumes "data_segment ns p" "can_reply ns n p" "ti_SeqNum p \<le> so_cumReadNXT sock" "ti_Payload p \<noteq> []"
    and "so_readBuffer sock = Some rb" "rb_ok rb" "rb_room rb \<noteq> 0" "length (ti_Payload p) < 4294967296"
    and "so_earlyPQ sock = []" "\<not> so_unackedMtx sock" "so_unackedFINs sock = []"
  shows "\<exists>sock' es. ReceiverThread_step ns n sock p = Inr (Some (sock', es)) \<and>
    so_cumReadNXT sock' = ti_SeqNum p + of_nat (length (ti_Payload p))"
proof -
  obtain rb' where rb': "copyPayload rb (ti_Payload p) = Inr (Some rb')"
    using copyPayload_fuel [OF assms(6,8)] by blast
  let ?cum = "ti_SeqNum p + of_nat (length (ti_Payload p))"
  let ?rb = "rb'\<lparr>rb_NXT := (?cum - so_baseAck sock + WINDOW_SIZE) mod WINDOW_SIZE\<rparr>"
  let ?s = "sock\<lparr>so_ClientWindowSize := ti_WindowSize p, so_cumReadNXT := ?cum, so_readBuffer := Some ?rb\<rparr>"
  obtain es where "HandleSend ns n (sk_LocalAddr (ti_key p)) (marshallTCPPacket ns (receiverAck ns ?s ?rb p)) 6 = Inr es"
    using assms(2) by (auto simp: can_reply_def)
  moreover have "\<not> so_cumReadNXT sock < ti_SeqNum p" using assms(3) by simp
  ultimately show ?thesis
    using assms rb'
    by (simp add: ReceiverThread_step_def data_segment_def insertPayload_def receiveRest_def drain_early.simps Let_def)
qed

text \<open>
  A FIN in a state other than \<open>ESTABLISHED\<close> and \<open>FIN_WAIT_2\<close>, as in a simultaneous close or when
  the peer repeats its FIN, leaves the mutex of the state locked; from then on reading blocks.
\<close>

lemma unexpected_fin_blocks:
  assumes "so_state sock \<noteq> ESTABLISHED" "so_state sock \<noteq> FIN_WAIT_2" "finReceived sock = Some (sock', es)"
  shows "VRead sock' k ferr = Inr (sock', ReadBlocked) \<and> finReceived sock' = None"
  using assms by (auto simp: finReceived_def VRead_def split: if_splits)

end
