(* ===== verification/Tcp_Send.thy ===== *)
theory Tcp_Send
  imports Tcp_Receive
begin

text \<open>
  \<open>pkg/tcpstack/tcpstack.go\<close>, fifth part: the sending side. \<open>VWrite\<close> fills the write buffer,
  \<open>SenderThread\<close> takes what was written, \<open>slidingWindow\<close> cuts it into segments, probes a closed
  window and takes acknowledgements, \<open>retransThread\<close> repeats the first unacknowledged segment,
  \<open>recomputeRTO\<close> keeps the retransmission timeout.

  The goroutines of a connection are functions of the socket and of what they receive in one
  turn: times, timeouts, the acknowledgements in the channel. \<open>fl\<close> is the rounding of a
  \<open>float64\<close> operation; nothing is assumed about it unless a lemma says so.
\<close>

section \<open>The retransmission timeout\<close>

definition RTO_ALPHA :: real where
  "RTO_ALPHA = 85 / 100"

definition RTO_BETA :: real where
  "RTO_BETA = 165 / 100"

definition recomputeRTO :: "(real \<Rightarrow> real) \<Rightarrow> real \<Rightarrow> NormalSocket \<Rightarrow> NormalSocket" where
  "recomputeRTO fl RTT sock =
     (if RTT < 0 then sock\<lparr>so_RTO := max RTO_MIN (min RTO_MAX (fl (2 * so_RTO sock)))\<rparr>
      else let srtt = (if so_SRTT sock < 0 then RTT
                       else fl (fl (fl RTO_ALPHA * so_SRTT sock) + fl (fl (1 - RTO_ALPHA) * RTT)))
           in sock\<lparr>so_SRTT := srtt, so_RTO := max RTO_MIN (min RTO_MAX (fl (fl RTO_BETA * srtt)))\<rparr>)"

text \<open>The period of the ticker in nanoseconds.\<close>

definition resetTicker :: "(real \<Rightarrow> real) \<Rightarrow> NormalSocket \<Rightarrow> int" where
  "resetTicker fl sock = \<lfloor>fl (so_RTO sock * 1000000)\<rfloor>"

section \<open>The window\<close>

record WindowNode =
  wn_payloadIndex :: u16
  wn_expectedAck :: u32
  wn_packet :: "TCPPacket option"
  wn_index :: u32
  wn_lastSent :: "int option"  \<comment> \<open>\<open>None\<close> is the zero time\<close>
  wn_retrans :: bool

text \<open>
  The local variables of \<open>slidingWindow\<close>. The linked list from \<open>window.head\<close> is a list, empty
  when the head is nil; as long as it is not, its last element is the node \<open>window.tail\<close>. The
  variable \<open>tail\<close> keeps pointing to the node of the first segment, the one with index 0 that has
  a packet; \<open>sd_firstPayload\<close> is that packet's payload, also when the node has left the window.
\<close>

record Sending =
  sd_payload :: bytes
  sd_payloadSize :: int
  sd_bytesToSend :: int
  sd_nodes :: "WindowNode list"
  sd_tail :: WindowNode
  sd_first :: bool
  sd_bytesSent :: int
  sd_skip_probe :: bool
  sd_firstPayload :: bytes

definition setTail :: "(WindowNode \<Rightarrow> WindowNode) \<Rightarrow> Sending \<Rightarrow> Sending" where
  "setTail f sd = sd\<lparr>sd_tail := f (sd_tail sd),
     sd_nodes := (if sd_nodes sd = [] then [] else butlast (sd_nodes sd) @ [f (sd_tail sd)])\<rparr>"

definition appendNode :: "WindowNode \<Rightarrow> Sending \<Rightarrow> Sending" where
  "appendNode nd sd = sd\<lparr>sd_tail := nd, sd_nodes := (if sd_nodes sd = [] then [] else sd_nodes sd @ [nd])\<rparr>"

definition wb_dist :: "WriteBuffer \<Rightarrow> u32" where
  "wb_dist wb = (wb_NXT wb - wb_UNA wb + WINDOW_SIZE) mod WINDOW_SIZE"

text \<open>A data segment from the socket's end to the other.\<close>

definition dataPacket :: "NormalSocket \<Rightarrow> ReadBuffer \<Rightarrow> u8 \<Rightarrow> u32 \<Rightarrow> bytes \<Rightarrow> TCPPacket" where
  "dataPacket sock rb flags seq payload =
     \<lparr>tp_sourceIp = sk_LocalAddr (so_key sock), tp_destIp = sk_RemoteAddr (so_key sock), tp_payload = payload,
      tp_flags = flags, tp_sourcePort = sk_LocalPort (so_key sock), tp_destPort = sk_RemotePort (so_key sock),
      tp_seqNum = seq, tp_ackNum = so_cumReadNXT sock, tp_window = ucast (rb_room rb)\<rparr>"

text \<open>The buffers of the socket; using them before the connection is established panics.\<close>

definition withBuffers :: "NormalSocket \<Rightarrow> (ReadBuffer \<Rightarrow> WriteBuffer \<Rightarrow> 'a res) \<Rightarrow> 'a res" where
  "withBuffers sock f =
     (case so_readBuffer sock of None \<Rightarrow> Inl NilPanic
      | Some rb \<Rightarrow> (case so_writeBuffer sock of None \<Rightarrow> Inl NilPanic | Some wb \<Rightarrow> f rb wb))"

lemma withBuffers_Some [simp]:
  "so_readBuffer sock = Some rb \<Longrightarrow> so_writeBuffer sock = Some wb \<Longrightarrow> withBuffers sock f = f rb wb"
  by (simp add: withBuffers_def)

definition startSending :: "NormalSocket \<Rightarrow> TCPPacket \<Rightarrow> Sending res" where
  "startSending sock packet = withBuffers sock (\<lambda>rb wb.
     let bytesToSend = min (min (uint MSS) (int (length (tp_payload packet)))) (uint (so_ClientWindowSize sock));
         firstPacket = dataPacket sock rb (tp_flags packet) (so_cumWriteUNA sock) (take (nat bytesToSend) (tp_payload packet));
         tail = \<lparr>wn_payloadIndex = 0, wn_expectedAck = wb_dist wb + so_cumWriteUNA sock + of_int bytesToSend,
           wn_packet = Some firstPacket, wn_index = 0, wn_lastSent = None, wn_retrans = False\<rparr>;
         head = \<lparr>wn_payloadIndex = 0, wn_expectedAck = 0, wn_packet = None, wn_index = 0, wn_lastSent = None, wn_retrans = False\<rparr>
     in Inr \<lparr>sd_payload = drop (nat bytesToSend) (tp_payload packet), sd_payloadSize = int (length (tp_payload packet)),
          sd_bytesToSend = bytesToSend, sd_nodes = [head, tail], sd_tail = tail, sd_first = True, sd_bytesSent = 0,
          sd_skip_probe = True, sd_firstPayload = take (nat bytesToSend) (tp_payload packet)\<rparr>)"

section \<open>Zero window probes\<close>

datatype probe_result = NoProbe | Probed | Restart TCPPacket | ProbeWaiting

text \<open>The acknowledgement of the probe, after timeouts that repeat it and other acknowledgements.\<close>

fun probe_wait :: "netstack \<Rightarrow> Node \<Rightarrow> Addr \<Rightarrow> bytes \<Rightarrow> u32 \<Rightarrow> event list \<Rightarrow> (effect list \<times> TCPInfo option) res" where
  "probe_wait ns n dest probe expectedAck [] = Inr ([], None)"
| "probe_wait ns n dest probe expectedAck (Timeout # evs) =
     bindr (HandleSend ns n dest probe 6) (\<lambda>es.
       bindr (probe_wait ns n dest probe expectedAck evs) (\<lambda>(fs, r). Inr (es @ fs, r)))"
| "probe_wait ns n dest probe expectedAck (Arrive received # evs) =
     (if ti_AckNum received = expectedAck \<and> ti_WindowSize received > 0 then Inr ([], Some received)
      else probe_wait ns n dest probe expectedAck evs)"

definition needs_probe :: "NormalSocket \<Rightarrow> WriteBuffer \<Rightarrow> Sending \<Rightarrow> bool" where
  "needs_probe sock wb sd \<longleftrightarrow> wb_NXT wb = wb_UNA wb \<and> \<not> sd_skip_probe sd \<and> so_ClientWindowSize sock = 0"

text \<open>The first segment, wherever its node still is, loses its first byte.\<close>

definition dropFirst :: "Sending \<Rightarrow> Sending" where
  "dropFirst sd =
     (let rest = tl (sd_firstPayload sd);
          f = (\<lambda>nd. if wn_index nd = 0 then nd\<lparr>wn_packet := map_option (\<lambda>p. p\<lparr>tp_payload := rest\<rparr>) (wn_packet nd)\<rparr> else nd)
      in sd\<lparr>sd_firstPayload := rest, sd_nodes := map f (sd_nodes sd), sd_tail := f (sd_tail sd)\<rparr>)"

text \<open>
  The loop that probes runs at most once: it is left by the jump or by the return. The packet
  argument is the one \<open>slidingWindow\<close> was called with; on a restart it is called again with the
  rest of the payload.
\<close>

definition probeStep ::
  "netstack \<Rightarrow> Node \<Rightarrow> TCPPacket \<Rightarrow> event list \<Rightarrow> NormalSocket \<Rightarrow> Sending \<Rightarrow> (NormalSocket \<times> Sending \<times> tcp_effect list \<times> probe_result) option res" where
  "probeStep ns n packet events sock sd = withBuffers sock (\<lambda>rb wb.
     if \<not> needs_probe sock wb sd then Inr (Some (sock, sd, [], NoProbe))
     else let wb1 = wb\<lparr>wb_NXT := (wb_NXT wb + 1) mod WINDOW_SIZE\<rparr>;
              expectedAck = wb_dist wb1 + so_cumWriteUNA sock;
              probe = marshallTCPPacket ns (dataPacket sock rb (ns_FlagAck ns) (expectedAck - 1) [wb_buffer wb ! unat (wb_UNA wb)]);
              sock1 = sock\<lparr>so_writeBuffer := Some wb1, so_unackedNums := AList.update expectedAck 0 (so_unackedNums sock)\<rparr>;
              dest = sk_RemoteAddr (so_key sock)
          in if length (wb_buffer wb) \<le> unat (wb_UNA wb) then Inl RangePanic
             else if so_unackedMtx sock then Inr None
             else bindr (HandleSend ns n dest probe 6) (\<lambda>es.
               bindr (probe_wait ns n dest probe expectedAck events) (\<lambda>(fs, r).
                 case r of
                   None \<Rightarrow> Inr (Some (sock1, sd, map Ip (Print ''zwp'' # es @ fs), ProbeWaiting))
                 | Some received \<Rightarrow>
                     let sock2 = sock1\<lparr>so_ClientWindowSize := ti_WindowSize received, so_cumWriteUNA := ti_AckNum received,
                           so_writeBuffer := Some (wb1\<lparr>wb_UNA := (ti_AckNum received - so_baseSeq sock + WINDOW_SIZE) mod WINDOW_SIZE\<rparr>)\<rparr>;
                         sd2 = sd\<lparr>sd_bytesSent := sd_bytesSent sd + 1, sd_skip_probe := True\<rparr>
                     in if sd_firstPayload sd = [] then
                          (if sd_payload sd = [] then Inl RangePanic
                           else Inr (Some (sock2, sd2, map Ip (Print ''zwp'' # es @ fs), Restart (packet\<lparr>tp_payload := tl (sd_payload sd)\<rparr>))))
                        else Inr (Some (sock2, dropFirst sd2, map Ip (Print ''zwp'' # es @ fs), Probed)))))"

section \<open>Sending the next segment\<close>

definition window_open :: "Sending \<Rightarrow> bool res" where
  "window_open sd =
     (case sd_nodes sd of
        [] \<Rightarrow> Inl NilPanic
      | [h] \<Rightarrow> Inr True
      | h # nx # _ \<Rightarrow> Inr (wn_index (sd_tail sd) - wn_index nx < WINDOW_SIZE))"

text \<open>The node for the next segment, when bytes are left.\<close>

definition allocNext :: "NormalSocket \<Rightarrow> ReadBuffer \<Rightarrow> TCPPacket \<Rightarrow> u32 \<Rightarrow> Sending \<Rightarrow> Sending" where
  "allocNext sock rb p expectedAck sd =
     (let bytesToSend = min (min (uint MSS) (sd_payloadSize sd - uint (wn_payloadIndex (sd_tail sd)))) (int (length (sd_payload sd)));
          sd1 = sd\<lparr>sd_bytesToSend := bytesToSend\<rparr>
      in if bytesToSend > 0 then
           let nextPacket = p\<lparr>tp_payload := take (nat bytesToSend) (sd_payload sd), tp_seqNum := expectedAck,
                 tp_ackNum := so_cumReadNXT sock, tp_window := ucast (rb_room rb)\<rparr>;
               nextNode = \<lparr>wn_payloadIndex = wn_payloadIndex (sd_tail sd) + MSS, wn_expectedAck = expectedAck + of_int bytesToSend,
                 wn_packet = Some nextPacket, wn_index = wn_index (sd_tail sd) + 1, wn_lastSent = None, wn_retrans = False\<rparr>
           in appendNode nextNode (sd1\<lparr>sd_payload := drop (nat bytesToSend) (sd_payload sd)\<rparr>)
         else sd1)"

definition sendTail ::
  "netstack \<Rightarrow> Node \<Rightarrow> int \<Rightarrow> NormalSocket \<Rightarrow> Sending \<Rightarrow> (NormalSocket \<times> Sending \<times> tcp_effect list) option res" where
  "sendTail ns n now sock sd = withBuffers sock (\<lambda>rb wb.
     if so_ClientWindowSize sock = 0 \<or> sd_bytesToSend sd \<le> 0 then Inr (Some (sock, sd, []))
     else bindr (window_open sd) (\<lambda>op.
       if \<not> op then Inr (Some (sock, sd, []))
       else if so_unackedMtx sock then Inr None
       else let wb1 = wb\<lparr>wb_NXT := (wb_NXT wb + of_int (sd_bytesToSend sd)) mod WINDOW_SIZE\<rparr>;
                expectedAck = wb_dist wb1 + so_cumWriteUNA sock
            in case wn_packet (sd_tail sd) of
                 None \<Rightarrow> Inl NilPanic
               | Some p \<Rightarrow>
                   let seg = marshallTCPPacket ns p;
                       sd1 = setTail (\<lambda>nd. nd\<lparr>wn_retrans := False, wn_lastSent := Some now\<rparr>) sd;
                       sock1 = sock\<lparr>so_writeBuffer := Some wb1, so_unackedNums := AList.update expectedAck 0 (so_unackedNums sock),
                         so_ClientWindowSize := so_ClientWindowSize sock - of_int (int (length seg) - 20)\<rparr>
                   in bindr (HandleSend ns n (sk_RemoteAddr (so_key sock)) seg 6) (\<lambda>es.
                        Inr (Some (sock1, allocNext sock rb p expectedAck (sd1\<lparr>sd_first := False\<rparr>), map Ip es)))))"

section \<open>Acknowledgements\<close>

text \<open>The window shrinks from its head; a segment sent once gives a new measurement.\<close>

fun shrink :: "(real \<Rightarrow> real) \<Rightarrow> int \<Rightarrow> u32 \<Rightarrow> NormalSocket \<Rightarrow> WindowNode list \<Rightarrow> NormalSocket \<times> WindowNode list" where
  "shrink fl now ack sock [] = (sock, [])"
| "shrink fl now ack sock (h # nodes) =
     (if wn_expectedAck h \<le> ack then
        shrink fl now ack
          (case wn_lastSent h of
             None \<Rightarrow> sock
           | Some t \<Rightarrow> if wn_retrans h then sock else recomputeRTO fl (fl (of_int (sgn (now - t) * (\<bar>now - t\<bar> div 1000000)))) sock)
          nodes
      else (sock, h # nodes))"

text \<open>One acknowledgement; a repeated one is skipped with the mutex still locked.\<close>

definition takeAck :: "(real \<Rightarrow> real) \<Rightarrow> int \<Rightarrow> TCPInfo \<Rightarrow> NormalSocket \<Rightarrow> Sending \<Rightarrow> (NormalSocket \<times> Sending) option" where
  "takeAck fl now received sock sd =
     (let ack = ti_AckNum received;
          seen = (case map_of (so_unackedNums sock) ack of None \<Rightarrow> 0 | Some k \<Rightarrow> k)
      in if so_unackedMtx sock then None
         else if seen \<noteq> 0 then Some (sock\<lparr>so_unackedMtx := True\<rparr>, sd)
         else
           let sock1 = sock\<lparr>so_unackedNums := AList.update ack (seen + 1) (so_unackedNums sock),
                 so_ClientWindowSize := ti_WindowSize received\<rparr>
           in if so_cumWriteUNA sock < ack then
                let sock2 = sock1\<lparr>so_cumWriteUNA := ack,
                      so_writeBuffer := map_option (\<lambda>wb. wb\<lparr>wb_UNA := (ack - so_baseSeq sock + WINDOW_SIZE) mod WINDOW_SIZE\<rparr>) (so_writeBuffer sock)\<rparr>;
                    (sock3, nodes) = shrink fl now ack sock2 (sd_nodes sd)
                in Some (sock3, sd\<lparr>sd_bytesSent := sd_bytesSent sd + uint (ack - so_cumWriteUNA sock), sd_nodes := nodes\<rparr>)
              else Some (sock1, sd))"

fun takeAcks :: "(real \<Rightarrow> real) \<Rightarrow> (int \<times> TCPInfo) list \<Rightarrow> NormalSocket \<Rightarrow> Sending \<Rightarrow> (NormalSocket \<times> Sending) option" where
  "takeAcks fl [] sock sd = Some (sock, sd)"
| "takeAcks fl ((now, received) # acks) sock sd =
     (case takeAck fl now received sock sd of None \<Rightarrow> None | Some (sock', sd') \<Rightarrow> takeAcks fl acks sock' sd')"

section \<open>The loop of \<open>slidingWindow\<close>\<close>

text \<open>What one turn of the loop meets: the events while probing, the time, the acknowledgements.\<close>

record turn =
  tn_events :: "event list"
  tn_now :: int
  tn_acks :: "(int \<times> TCPInfo) list"

datatype sending_result = Sent NormalSocket | InProgress NormalSocket Sending | Again NormalSocket TCPPacket

definition slidingWindow_turn ::
  "netstack \<Rightarrow> Node \<Rightarrow> (real \<Rightarrow> real) \<Rightarrow> TCPPacket \<Rightarrow> turn \<Rightarrow> NormalSocket \<Rightarrow> Sending \<Rightarrow> (sending_result \<times> tcp_effect list) option res" where
  "slidingWindow_turn ns n fl packet tn sock sd =
     bindo (probeStep ns n packet (tn_events tn) sock sd) (\<lambda>(sock1, sd1, es, r).
       case r of
         ProbeWaiting \<Rightarrow> Inr None
       | Restart packet' \<Rightarrow> Inr (Some (Again sock1 packet', es))
       | _ \<Rightarrow>
           bindo (sendTail ns n (tn_now tn) sock1 sd1) (\<lambda>(sock2, sd2, fs).
             let sd3 = (if so_ClientWindowSize sock2 = 0 then sd2\<lparr>sd_skip_probe := False\<rparr> else sd2)
             in case takeAcks fl (tn_acks tn) sock2 sd3 of
                  None \<Rightarrow> Inr None
                | Some (sock4, sd4) \<Rightarrow> Inr (Some (InProgress sock4 sd4, es @ fs))))"

fun slidingWindow_loop ::
  "netstack \<Rightarrow> Node \<Rightarrow> (real \<Rightarrow> real) \<Rightarrow> TCPPacket \<Rightarrow> turn list \<Rightarrow> NormalSocket \<Rightarrow> Sending \<Rightarrow> (sending_result \<times> tcp_effect list) option res" where
  "slidingWindow_loop ns n fl packet tns sock sd =
     (if \<not> sd_bytesSent sd < sd_payloadSize sd
      then Inr (Some (Sent sock, [Ip (Print (''Sent '' @ show_int (sd_payloadSize sd) @ '' bytes''))]))
      else case tns of
        [] \<Rightarrow> Inr (Some (InProgress sock sd, []))
      | tn # tns' \<Rightarrow>
          bindo (slidingWindow_turn ns n fl packet tn sock sd) (\<lambda>(r, es).
            case r of
              InProgress sock' sd' \<Rightarrow>
                bindo (slidingWindow_loop ns n fl packet tns' sock' sd') (\<lambda>(r', fs). Inr (Some (r', es @ fs)))
            | _ \<Rightarrow> Inr (Some (r, es))))"

declare slidingWindow_loop.simps [simp del]

text \<open>A restart calls \<open>slidingWindow\<close> again with the remaining payload; each list of turns is one call.\<close>

fun slidingWindow ::
  "netstack \<Rightarrow> Node \<Rightarrow> (real \<Rightarrow> real) \<Rightarrow> turn list list \<Rightarrow> NormalSocket \<Rightarrow> TCPPacket \<Rightarrow> (sending_result \<times> tcp_effect list) option res" where
  "slidingWindow ns n fl [] sock packet = Inr (Some (Again sock packet, []))"
| "slidingWindow ns n fl (tns # calls) sock packet =
     bindr (startSending sock packet) (\<lambda>sd.
       bindo (slidingWindow_loop ns n fl packet tns sock sd) (\<lambda>(r, es).
         case r of
           Again sock' packet' \<Rightarrow> bindo (slidingWindow ns n fl calls sock' packet') (\<lambda>(r', fs). Inr (Some (r', es @ fs)))
         | _ \<Rightarrow> Inr (Some (r, es))))"

section \<open>\<open>SenderThread\<close> and \<open>VWrite\<close>\<close>

text \<open>What \<open>SenderThread\<close> makes of a message from \<open>VWrite\<close>: the segment it hands to \<open>slidingWindow\<close>, if any.\<close>

definition senderPacket :: "netstack \<Rightarrow> u32 \<Rightarrow> NormalSocket \<Rightarrow> TCPPacket option res" where
  "senderPacket ns lbw sock = withBuffers sock (\<lambda>rb wb.
     let distLBW = (lbw - wb_UNA wb) mod WINDOW_SIZE;
         distNXT = (wb_NXT wb - wb_UNA wb) mod WINDOW_SIZE
     in if distNXT \<le> distLBW then
          bindr (senderPayload wb lbw) (\<lambda>payload.
            Inr (Some ((dataPacket sock rb (ns_FlagAck ns) (wb_UNA wb + so_baseSeq sock) payload)
              \<lparr>tp_ackNum := rb_NXT rb + so_baseAck sock\<rparr>)))
        else Inr None)"

definition SenderThread_turn ::
  "netstack \<Rightarrow> Node \<Rightarrow> (real \<Rightarrow> real) \<Rightarrow> turn list list \<Rightarrow> u32 \<Rightarrow> NormalSocket \<Rightarrow> (sending_result \<times> tcp_effect list) option res" where
  "SenderThread_turn ns n fl calls lbw sock =
     bindr (senderPacket ns lbw sock) (\<lambda>r.
       case r of None \<Rightarrow> Inr (Some (Sent sock, [])) | Some packet \<Rightarrow> slidingWindow ns n fl calls sock packet)"

definition VWrite_turn :: "bytes \<Rightarrow> u32 \<Rightarrow> bool \<Rightarrow> NormalSocket \<Rightarrow> (NormalSocket \<times> u32 \<times> u32) res" where
  "VWrite_turn message bytesSent new_message sock =
     (case so_writeBuffer sock of
        None \<Rightarrow> Inl NilPanic
      | Some wb \<Rightarrow>
          let space = (if \<not> so_notFirstWrite sock \<or> new_message then WINDOW_SIZE - 1 - wb_LBW wb
                       else (wb_UNA wb - 1 - wb_LBW wb + WINDOW_SIZE) mod WINDOW_SIZE);
              to_write = min (min (of_nat (length message) - bytesSent) space) (of_nat (MaxMessageSize - 40))
          in bindr (writeChunk wb (take (unat to_write) (drop (unat bytesSent) message))) (\<lambda>wb'.
               Inr (sock\<lparr>so_writeBuffer := Some wb', so_notFirstWrite := True\<rparr>, bytesSent + to_write, wb_LBW wb')))"

text \<open>
  Every turn ends with a message to \<open>SenderThread\<close>; \<open>worlds\<close> is what the other goroutines do to
  the socket until the next turn. The result lists the messages.
\<close>

fun VWrite_loop ::
  "(NormalSocket \<Rightarrow> NormalSocket) list \<Rightarrow> bytes \<Rightarrow> u32 \<Rightarrow> bool \<Rightarrow> NormalSocket \<Rightarrow> (NormalSocket \<times> u32 list) option res" where
  "VWrite_loop worlds message bytesSent new_message sock =
     (if \<not> bytesSent < of_nat (length message) then Inr (Some (sock, []))
      else case worlds of
        [] \<Rightarrow> Inr None
      | w # worlds' \<Rightarrow>
          bindr (VWrite_turn message bytesSent new_message sock) (\<lambda>(sock', bytesSent', lbw).
            bindo (VWrite_loop worlds' message bytesSent' False (w sock')) (\<lambda>(sock'', lbws). Inr (Some (sock'', lbw # lbws)))))"

declare VWrite_loop.simps [simp del]

datatype write_result = WriteClosed | Written NormalSocket "u32 list"

definition VWrite :: "(NormalSocket \<Rightarrow> NormalSocket) list \<Rightarrow> bytes \<Rightarrow> NormalSocket \<Rightarrow> write_result option res" where
  "VWrite worlds message sock =
     (if so_stateMtx sock then Inr None
      else if so_state sock = FIN_WAIT_1 \<or> so_state sock = FIN_WAIT_2 \<or> so_state sock = TIME_WAIT then Inr (Some WriteClosed)
      else bindo (VWrite_loop worlds message 0 True sock) (\<lambda>(sock', lbws). Inr (Some (Written sock' lbws))))"

section \<open>Retransmission\<close>

text \<open>A node of the window changes; the tail is the last of them.\<close>

definition setNode :: "nat \<Rightarrow> (WindowNode \<Rightarrow> WindowNode) \<Rightarrow> Sending \<Rightarrow> Sending" where
  "setNode i f sd =
     (let nodes = (sd_nodes sd)[i := f (sd_nodes sd ! i)]
      in sd\<lparr>sd_nodes := nodes, sd_tail := (if nodes = [] then sd_tail sd else last nodes)\<rparr>)"

definition retransmit :: "NormalSocket \<Rightarrow> ReadBuffer \<Rightarrow> int \<Rightarrow> TCPPacket \<Rightarrow> nat \<Rightarrow> Sending \<Rightarrow> TCPPacket \<times> Sending" where
  "retransmit sock rb now p i sd =
     (let p' = p\<lparr>tp_ackNum := so_cumReadNXT sock, tp_window := ucast (rb_room rb)\<rparr>
      in (p', setNode i (\<lambda>nd. nd\<lparr>wn_packet := Some p', wn_retrans := True, wn_lastSent := Some now\<rparr>) sd))"

text \<open>
  \<open>retransThread\<close> wakes up: the socket with the doubled timeout, the window, the index and the
  number of repetitions of the last segment, and whether it gives up and closes the connection.
\<close>

definition retransThread_tick ::
  "netstack \<Rightarrow> Node \<Rightarrow> (real \<Rightarrow> real) \<Rightarrow> int \<Rightarrow> int \<times> int \<Rightarrow> NormalSocket \<Rightarrow> Sending \<Rightarrow> (NormalSocket \<times> Sending \<times> tcp_effect list \<times> (int \<times> int) \<times> bool) res" where
  "retransThread_tick ns n fl now = (\<lambda>(last_index, cnt) sock0 sd.
     let sock = recomputeRTO fl (-1) sock0;
         expired = Ip (Print ''ticker expired'');
         quiet = (sock, sd, [expired], (last_index, cnt), False);
         dest = sk_RemoteAddr (so_key sock)
     in if so_ClientWindowSize sock = 0 then Inr quiet
        else case sd_nodes sd of
          [] \<Rightarrow> Inr quiet
        | h # rest \<Rightarrow>
            if wn_expectedAck h \<noteq> 0 then
              (case (wn_lastSent h, wn_packet h) of
                 (None, _) \<Rightarrow> Inr quiet
               | (Some _, None) \<Rightarrow> Inl NilPanic
               | (Some _, Some p) \<Rightarrow>
                   withBuffers sock (\<lambda>rb wb.
                     let (p', sd') = retransmit sock rb now p 0 sd;
                         cnt' = (if of_int last_index = wn_index h then cnt + 1 else 1);
                         last_index' = (if of_int last_index = wn_index h then last_index else uint (wn_index h))
                     in if cnt' = 10 then
                          Inr (sock, sd', [expired, Ip (Print ''Retransmission failed after 10 times; closing connection.'')],
                            (last_index', cnt'), True)
                        else bindr (HandleSend ns n dest (marshallTCPPacket ns p') 6) (\<lambda>es.
                          Inr (sock, sd', expired # map Ip es, (last_index', cnt'), False))))
            else
              (case rest of
                 [] \<Rightarrow> Inr quiet
               | nx # _ \<Rightarrow>
                   (case (wn_lastSent nx, wn_packet nx) of
                      (None, _) \<Rightarrow> Inr quiet
                    | (Some _, None) \<Rightarrow> Inl NilPanic
                    | (Some _, Some p) \<Rightarrow>
                        withBuffers sock (\<lambda>rb wb.
                          let (p', sd') = retransmit sock rb now p 1 sd
                          in bindr (HandleSend ns n dest (marshallTCPPacket ns p') 6) (\<lambda>es.
                            Inr (sock, sd', expired # map Ip es, (last_index, cnt), False))))))"

section \<open>The timeout stays in its range\<close>

text \<open>
  C38. Whatever round trip times are measured and however often the timer expires, the
  retransmission timeout stays between half a second and five seconds, for every rounding of
  floating-point operations; and if doubling is exact, four expirations in a row bring it to
  the maximum.
\<close>

theorem rto_bounds:
  assumes "RTO_MIN \<le> so_RTO sock" "so_RTO sock \<le> RTO_MAX"
  shows "RTO_MIN \<le> so_RTO (foldr (recomputeRTO fl) rtts sock) \<and> so_RTO (foldr (recomputeRTO fl) rtts sock) \<le> RTO_MAX \<and>
    ((\<forall>x. fl (2 * x) = 2 * x) \<longrightarrow> so_RTO (foldr (recomputeRTO fl) [-1, -1, -1, -1] sock) = RTO_MAX)"
proof (intro conjI impI)
  show "RTO_MIN \<le> so_RTO (foldr (recomputeRTO fl) rtts sock)"
    using assms by (cases rtts) (auto simp: recomputeRTO_def Let_def)
  show "so_RTO (foldr (recomputeRTO fl) rtts sock) \<le> RTO_MAX"
    using assms by (cases rtts) (auto simp: recomputeRTO_def Let_def RTO_MIN_def RTO_MAX_def)
next
  assume "\<forall>x. fl (2 * x) = 2 * x"
  then show "so_RTO (foldr (recomputeRTO fl) [-1, -1, -1, -1] sock) = RTO_MAX"
    using assms by (simp add: recomputeRTO_def RTO_MIN_def RTO_MAX_def max_def min_def)
qed

theorem rto_bounds_witness:
  "so_RTO (foldr (recomputeRTO id) [120, -1, -1, 40] ex_receiver) \<le> RTO_MAX \<and>
   so_RTO (foldr (recomputeRTO id) [-1, -1, -1, -1] ex_receiver) = RTO_MAX"
  using rto_bounds [of ex_receiver id "[120, -1, -1, 40]"]
  by (simp add: ex_receiver_def acceptingSocket_def connectingSocket_def RTO_MIN_def RTO_MAX_def del: foldr.simps)

end
