(* ===== verification/Tcp_Stream.thy ===== *)
theory Tcp_Stream
  imports Tcp_Send
begin

text \<open>
  The sending side cuts what is written into the segments of one stream. An invariant relates
  the state of \<open>slidingWindow\<close> to the payload it was called with: how much of it was sent and
  acknowledged, and which segment is next. It is kept by every turn of the loop, whatever
  acknowledgements arrive.
\<close>

section \<open>Distances on the ring\<close>

lemma uint_mod_WINDOW_SIZE: "uint (x mod WINDOW_SIZE) = uint x mod 65536"
  by (simp add: WINDOW_SIZE_def uint_mod)

lemma uint_mod_mod: "(k :: int) mod 4294967296 mod 65536 = k mod 65536"
  by (rule mod_mod_cancel) simp

lemma ring_diff: "((x mod WINDOW_SIZE) - (y mod WINDOW_SIZE) + WINDOW_SIZE) mod WINDOW_SIZE = (x - y) mod WINDOW_SIZE"
proof -
  have "uint (((x mod WINDOW_SIZE) - (y mod WINDOW_SIZE) + WINDOW_SIZE) mod WINDOW_SIZE) = (uint x - uint y) mod 65536"
    by (simp add: uint_mod_WINDOW_SIZE uint_word_ariths uint_mod_mod mod_simps) (simp add: WINDOW_SIZE_def mod_simps)
  moreover have "uint ((x - y) mod WINDOW_SIZE) = (uint x - uint y) mod 65536"
    by (simp add: uint_mod_WINDOW_SIZE uint_word_ariths uint_mod_mod)
  ultimately show ?thesis by (simp add: word_uint_eq_iff)
qed

lemma ring_move: "((x mod WINDOW_SIZE) + y) mod WINDOW_SIZE = (x + y) mod WINDOW_SIZE"
proof -
  have "uint (((x mod WINDOW_SIZE) + y) mod WINDOW_SIZE) = (uint x + uint y) mod 65536"
    by (simp add: uint_mod_WINDOW_SIZE uint_word_ariths uint_mod_mod mod_simps)
  moreover have "uint ((x + y) mod WINDOW_SIZE) = (uint x + uint y) mod 65536"
    by (simp add: uint_mod_WINDOW_SIZE uint_word_ariths uint_mod_mod)
  ultimately show ?thesis by (simp add: word_uint_eq_iff)
qed

lemma ring_self: "(x + WINDOW_SIZE) mod WINDOW_SIZE = x mod WINDOW_SIZE"
  using ring_diff [of x 0] ring_move [of x WINDOW_SIZE] by simp

text \<open>With \<open>t\<close> bytes sent and \<open>a\<close> acknowledged, the code's distance is the number in flight.\<close>

lemma wb_dist_in_flight:
  assumes "wb_NXT wb = (u0 + of_nat t - base) mod WINDOW_SIZE" "wb_UNA wb = (u0 + of_nat a - base) mod WINDOW_SIZE"
    and "a \<le> t" "t - a < 65536"
  shows "wb_dist wb + (u0 + of_nat a) = u0 + of_nat t"
proof -
  have "u0 + of_nat t - base - (u0 + of_nat a - base) = of_nat (t - a)" using assms(3) by (simp add: of_nat_diff)
  then have "wb_dist wb = (of_nat (t - a)) mod WINDOW_SIZE" unfolding wb_dist_def assms(1,2) ring_diff by (rule arg_cong)
  also have "\<dots> = of_nat (t - a)"
    using assms(4) by (simp add: word_unat_eq_iff WINDOW_SIZE_mod unat_of_nat)
  finally show ?thesis using assms(3) by (simp add: of_nat_diff)
qed

section \<open>The invariant\<close>

definition is_segment :: "SocketTableKey \<Rightarrow> u8 \<Rightarrow> bytes \<Rightarrow> u32 \<Rightarrow> nat \<Rightarrow> nat \<Rightarrow> TCPPacket \<Rightarrow> bool" where
  "is_segment k flags P u0 t b p \<longleftrightarrow>
     tp_sourceIp p = sk_LocalAddr k \<and> tp_destIp p = sk_RemoteAddr k \<and> tp_sourcePort p = sk_LocalPort k \<and>
     tp_destPort p = sk_RemotePort k \<and> tp_flags p = flags \<and> tp_seqNum p = u0 + of_nat t \<and> tp_payload p = take b (drop t P)"

definition tail_ok :: "SocketTableKey \<Rightarrow> u8 \<Rightarrow> bytes \<Rightarrow> u32 \<Rightarrow> nat \<Rightarrow> Sending \<Rightarrow> bool" where
  "tail_ok k flags P u0 t sd \<longleftrightarrow> (let b = nat (sd_bytesToSend sd) in
     t + b \<le> length P \<and> b \<le> 1360 \<and> sd_payload sd = drop (t + b) P \<and> (sd_nodes sd \<noteq> [] \<longrightarrow> last (sd_nodes sd) = sd_tail sd) \<and>
     (t + b < length P \<longrightarrow> unat (wn_payloadIndex (sd_tail sd)) \<le> t + b) \<and>
     (0 < b \<longrightarrow> sd_nodes sd \<noteq> [] \<and> wn_expectedAck (sd_tail sd) = u0 + of_nat (t + b) \<and>
        (\<exists>p. wn_packet (sd_tail sd) = Some p \<and> is_segment k flags P u0 t b p)))"

definition sending :: "u8 \<Rightarrow> bytes \<Rightarrow> u32 \<Rightarrow> nat \<Rightarrow> nat \<Rightarrow> NormalSocket \<Rightarrow> Sending \<Rightarrow> bool" where
  "sending flags P u0 a t sock sd \<longleftrightarrow>
     so_readBuffer sock \<noteq> None \<and>
     (\<exists>wb. so_writeBuffer sock = Some wb \<and> wb_NXT wb = (u0 + of_nat t - so_baseSeq sock) mod WINDOW_SIZE \<and>
        wb_UNA wb = (u0 + of_nat a - so_baseSeq sock) mod WINDOW_SIZE) \<and>
     so_cumWriteUNA sock = u0 + of_nat a \<and> a \<le> t \<and> t \<le> length P \<and>
     sd_payloadSize sd = int (length P) \<and> sd_bytesSent sd = int a \<and> tail_ok (so_key sock) flags P u0 t sd"

text \<open>A socket with nothing in flight, as it is after the handshake and after each call.\<close>

definition idle :: "u32 \<Rightarrow> NormalSocket \<Rightarrow> bool" where
  "idle u0 sock \<longleftrightarrow> so_readBuffer sock \<noteq> None \<and> so_cumWriteUNA sock = u0 \<and>
     (\<exists>wb. so_writeBuffer sock = Some wb \<and> wb_NXT wb = (u0 - so_baseSeq sock) mod WINDOW_SIZE \<and>
        wb_UNA wb = (u0 - so_baseSeq sock) mod WINDOW_SIZE)"

lemma idle_connected: "idle (ti_AckNum ci) (connectedSocket sock ci)"
  by (simp add: idle_def connectedSocket_def newWriteBuffer_def WINDOW_SIZE_def)

lemma idle_accepting: "idle 6001 (acceptingSocket sid sk ci)"
  by (simp add: idle_def acceptingSocket_def connectingSocket_def newWriteBuffer_def WINDOW_SIZE_def)

lemma startSending_sending:
  assumes "idle u0 sock" "startSending sock packet = Inr sd"
  shows "sending (tp_flags packet) (tp_payload packet) u0 0 0 sock sd"
proof -
  let ?P = "tp_payload packet"
  obtain rb wb where b: "so_readBuffer sock = Some rb" "so_writeBuffer sock = Some wb" "so_cumWriteUNA sock = u0"
      "wb_NXT wb = (u0 - so_baseSeq sock) mod WINDOW_SIZE" "wb_UNA wb = (u0 - so_baseSeq sock) mod WINDOW_SIZE"
    using assms(1) by (auto simp: idle_def)
  define bts where "bts = min (min (uint MSS) (int (length ?P))) (uint (so_ClientWindowSize sock))"
  have bts: "0 \<le> bts" "bts \<le> 1360" "nat bts \<le> length ?P" by (auto simp: bts_def MSS_def)
  have dist: "wb_dist wb + u0 = u0" using wb_dist_in_flight [of wb u0 0 "so_baseSeq sock" 0] b by simp
  have word: "of_int bts = (of_nat (nat bts) :: u32)" using bts(1) by (simp add: of_nat_nat)
  let ?n = "\<lparr>wn_payloadIndex = 0, wn_expectedAck = u0 + of_nat (nat bts),
      wn_packet = Some (dataPacket sock rb (tp_flags packet) u0 (take (nat bts) ?P)), wn_index = 0, wn_lastSent = None, wn_retrans = False\<rparr>"
  have "sd_payload sd = drop (nat bts) ?P \<and> sd_payloadSize sd = int (length ?P) \<and> sd_bytesToSend sd = bts \<and>
      sd_bytesSent sd = 0 \<and> sd_tail sd = ?n \<and> sd_nodes sd \<noteq> [] \<and> last (sd_nodes sd) = ?n"
    using assms(2) by (auto simp: startSending_def withBuffers_def b(1-3) Let_def bts_def [symmetric] dist word)
  then show ?thesis
    using b bts by (simp add: sending_def tail_ok_def is_segment_def dataPacket_def)
qed

section \<open>Sending a segment\<close>

lemma unat_MSS: "uint MSS = 1360" "unat MSS = 1360"
  by (simp_all add: MSS_def)

lemma allocNext_tail_ok:
  assumes "t \<le> length P" "sd_payload sd = drop t P" "sd_payloadSize sd = int (length P)" "sd_nodes sd \<noteq> []" "last (sd_nodes sd) = sd_tail sd"
    and "t < length P \<longrightarrow> unat (wn_payloadIndex (sd_tail sd)) \<le> t" and "is_segment k flags P u0 t0 b0 p"
  shows "tail_ok k flags P u0 t (allocNext sock rb p (u0 + of_nat t) sd)"
proof (cases "t < length P")
  case False
  then show ?thesis using assms by (simp add: allocNext_def Let_def tail_ok_def unat_MSS)
next
  case True
  define b where "b = min 1360 (length P - t)"
  have b: "0 < b" "t + b \<le> length P" "t + b < length P \<Longrightarrow> b = 1360" using True by (auto simp: b_def)
  have "int (length P) - int t \<le> int (length P) - uint (wn_payloadIndex (sd_tail sd))"
    using assms(6) True unfolding unat_eq_nat_uint nat_le_iff by simp
  then have bts: "min (min (uint MSS) (sd_payloadSize sd - uint (wn_payloadIndex (sd_tail sd)))) (int (length (sd_payload sd))) = int b"
    using True by (simp add: assms(2,3) unat_MSS b_def)
  have pi: "unat (wn_payloadIndex (sd_tail sd) + MSS) \<le> unat (wn_payloadIndex (sd_tail sd)) + 1360"
    by (simp add: unat_word_ariths unat_MSS)
  let ?p = "p\<lparr>tp_payload := take b (sd_payload sd), tp_seqNum := u0 + of_nat t, tp_ackNum := so_cumReadNXT sock, tp_window := ucast (rb_room rb)\<rparr>"
  let ?nd = "\<lparr>wn_payloadIndex = wn_payloadIndex (sd_tail sd) + MSS, wn_expectedAck = u0 + of_nat t + of_nat b,
      wn_packet = Some ?p, wn_index = wn_index (sd_tail sd) + 1, wn_lastSent = None, wn_retrans = False\<rparr>"
  have "allocNext sock rb p (u0 + of_nat t) sd = appendNode ?nd (sd\<lparr>sd_bytesToSend := int b, sd_payload := drop b (sd_payload sd)\<rparr>)"
    using b(1) by (simp add: allocNext_def Let_def bts)
  moreover have "is_segment k flags P u0 t b ?p" using assms(2,7) by (simp add: is_segment_def)
  moreover have "drop b (sd_payload sd) = drop (t + b) P" "b \<le> 1360" by (simp_all add: assms(2) add.commute b_def)
  moreover have "t + b < length P \<longrightarrow> unat (wn_payloadIndex (sd_tail sd) + MSS) \<le> t + b"
    using b(3) assms(6) True pi by auto
  ultimately show ?thesis
    using b(1,2) assms(4) by (simp add: tail_ok_def Let_def appendNode_def add.assoc)
qed

lemma sendTail_sends:
  assumes "so_readBuffer sock = Some rb" "so_writeBuffer sock = Some wb" "so_ClientWindowSize sock \<noteq> 0" "0 < sd_bytesToSend sd"
    and "window_open sd \<noteq> Inr False" "wn_packet (sd_tail sd) = Some p" "sendTail ns n now sock sd = Inr (Some (sock', sd', es))"
  defines "wb1 \<equiv> wb\<lparr>wb_NXT := (wb_NXT wb + of_int (sd_bytesToSend sd)) mod WINDOW_SIZE\<rparr>"
  defines "expectedAck \<equiv> wb_dist wb1 + so_cumWriteUNA sock"
  shows "\<exists>gs. HandleSend ns n (sk_RemoteAddr (so_key sock)) (marshallTCPPacket ns p) 6 = Inr gs \<and> es = map Ip gs \<and>
    sd' = allocNext sock rb p expectedAck ((setTail (\<lambda>nd. nd\<lparr>wn_retrans := False, wn_lastSent := Some now\<rparr>) sd)\<lparr>sd_first := False\<rparr>) \<and>
    sock' = sock\<lparr>so_writeBuffer := Some wb1, so_unackedNums := AList.update expectedAck 0 (so_unackedNums sock),
      so_ClientWindowSize := so_ClientWindowSize sock - of_int (int (length (marshallTCPPacket ns p)) - 20)\<rparr>"
proof -
  have "window_open sd = Inr True" using assms(1-7) by (cases "window_open sd") (auto simp: sendTail_def)
  with assms(1-7) have "\<exists>gs. HandleSend ns n (sk_RemoteAddr (so_key sock)) (marshallTCPPacket ns p) 6 = Inr gs \<and>
    Inr (Some (sock', sd', es)) = (Inr (Some (sock\<lparr>so_writeBuffer := Some wb1, so_unackedNums := AList.update expectedAck 0 (so_unackedNums sock),
      so_ClientWindowSize := so_ClientWindowSize sock - of_int (int (length (marshallTCPPacket ns p)) - 20)\<rparr>,
      allocNext sock rb p expectedAck ((setTail (\<lambda>nd. nd\<lparr>wn_retrans := False, wn_lastSent := Some now\<rparr>) sd)\<lparr>sd_first := False\<rparr>),
      map Ip gs)) :: (NormalSocket \<times> Sending \<times> tcp_effect list) option res)"
    by (simp add: sendTail_def bindr_eq_Inr Let_def wb1_def expectedAck_def split: if_splits) metis
  then show ?thesis by auto
qed

text \<open>The IP packets a segment becomes.\<close>

definition onWire :: "netstack \<Rightarrow> Node \<Rightarrow> TCPPacket \<Rightarrow> tcp_effect list" where
  "onWire ns n p = (case HandleSend ns n (tp_destIp p) (marshallTCPPacket ns p) 6 of Inl _ \<Rightarrow> [] | Inr es \<Rightarrow> map Ip es)"

lemma sendTail_sending:
  assumes inv: "sending flags P u0 a t sock sd" and P: "length P \<le> 65535"
    and send: "sendTail ns n now sock sd = Inr (Some (sock', sd', es))"
  shows "sock' = sock \<and> sd' = sd \<and> es = [] \<or>
    (\<exists>b p. 0 < b \<and> b \<le> 1360 \<and> t + b \<le> length P \<and> is_segment (so_key sock) flags P u0 t b p \<and> es = onWire ns n p \<and>
       sending flags P u0 a (t + b) sock' sd' \<and> so_key sock' = so_key sock)"
proof -
  obtain rb wb where b: "so_readBuffer sock = Some rb" "so_writeBuffer sock = Some wb"
      "wb_NXT wb = (u0 + of_nat t - so_baseSeq sock) mod WINDOW_SIZE" "wb_UNA wb = (u0 + of_nat a - so_baseSeq sock) mod WINDOW_SIZE"
    and c: "so_cumWriteUNA sock = u0 + of_nat a" "a \<le> t" "t \<le> length P" "sd_payloadSize sd = int (length P)" "sd_bytesSent sd = int a"
    and tail: "tail_ok (so_key sock) flags P u0 t sd"
    using inv by (auto simp: sending_def)
  define m where "m = nat (sd_bytesToSend sd)"
  show ?thesis
  proof (cases "so_ClientWindowSize sock = 0 \<or> sd_bytesToSend sd \<le> 0 \<or> window_open sd = Inr False")
    case True
    then show ?thesis using send b(1,2) by (auto simp: sendTail_def bindr_eq_Inr split: if_splits)
  next
    case False
    then have m: "0 < m" "sd_bytesToSend sd = int m" by (auto simp: m_def)
    obtain p where p: "wn_packet (sd_tail sd) = Some p" "is_segment (so_key sock) flags P u0 t m p"
        "t + m \<le> length P" "m \<le> 1360" "sd_payload sd = drop (t + m) P" "sd_nodes sd \<noteq> []"
        "t + m < length P \<longrightarrow> unat (wn_payloadIndex (sd_tail sd)) \<le> t + m"
      using tail m by (auto simp: tail_ok_def Let_def)
    define wb1 where "wb1 = wb\<lparr>wb_NXT := (wb_NXT wb + of_int (sd_bytesToSend sd)) mod WINDOW_SIZE\<rparr>"
    have nxt: "wb_NXT wb1 = (u0 + of_nat (t + m) - so_baseSeq sock) mod WINDOW_SIZE" "wb_UNA wb1 = wb_UNA wb"
      using ring_move [of "u0 + of_nat t - so_baseSeq sock" "of_nat m"] by (simp_all add: wb1_def m(2) b(3)) (simp add: algebra_simps)
    have ack: "wb_dist wb1 + so_cumWriteUNA sock = u0 + of_nat (t + m)"
      unfolding c(1) using nxt b(4) c(2) p(3) P by (intro wb_dist_in_flight [of _ _ _ "so_baseSeq sock"]) simp_all
    define sd1 where "sd1 = (setTail (\<lambda>nd. nd\<lparr>wn_retrans := False, wn_lastSent := Some now\<rparr>) sd)\<lparr>sd_first := False\<rparr>"
    have dest: "tp_destIp p = sk_RemoteAddr (so_key sock)" using p(2) by (simp add: is_segment_def)
    from sendTail_sends [OF b(1,2) _ _ _ p(1) send] False m obtain gs where
      gs: "HandleSend ns n (sk_RemoteAddr (so_key sock)) (marshallTCPPacket ns p) 6 = Inr gs" "es = map Ip gs"
      and sd': "sd' = allocNext sock rb p (u0 + of_nat (t + m)) sd1"
      and s': "so_readBuffer sock' = Some rb" "so_writeBuffer sock' = Some wb1" "so_baseSeq sock' = so_baseSeq sock"
        "so_cumWriteUNA sock' = so_cumWriteUNA sock" "so_key sock' = so_key sock"
      unfolding wb1_def [symmetric] sd1_def [symmetric] ack using b(1) by auto
    have "tail_ok (so_key sock) flags P u0 (t + m) sd'"
      unfolding sd' using p c(4) by (intro allocNext_tail_ok) (auto simp: sd1_def setTail_def)
    moreover have "sd_payloadSize sd' = int (length P)" "sd_bytesSent sd' = int a"
      using c by (simp_all add: sd' sd1_def setTail_def allocNext_def Let_def appendNode_def)
    ultimately have "sending flags P u0 a (t + m) sock' sd'"
      using b(4) c nxt p(3) s' by (simp add: sending_def)
    moreover have "es = onWire ns n p" using gs by (simp add: onWire_def dest)
    ultimately show ?thesis using m(1) p(2-4) s'(5) by blast
  qed
qed

section \<open>Taking acknowledgements\<close>

text \<open>Only the timers differ.\<close>

definition timers_only :: "NormalSocket \<Rightarrow> NormalSocket \<Rightarrow> bool" where
  "timers_only sock sock' \<longleftrightarrow> sock' = sock\<lparr>so_RTO := so_RTO sock', so_SRTT := so_SRTT sock'\<rparr>"

lemma timers_only_refl: "timers_only sock sock"
  by (simp add: timers_only_def)

lemma timers_only_trans: "timers_only s t \<Longrightarrow> timers_only t u \<Longrightarrow> timers_only s u"
  by (cases s; cases t; cases u) (simp add: timers_only_def)

lemma recomputeRTO_frame: "timers_only sock (recomputeRTO fl rtt sock)"
  by (cases sock) (simp add: timers_only_def recomputeRTO_def Let_def)

lemma shrink_frame: "timers_only sock (fst (shrink fl now ack sock nodes))"
proof (induction nodes arbitrary: sock)
  case (Cons h nodes)
  then show ?case
    by (auto simp: timers_only_refl split: option.splits intro: timers_only_trans [OF recomputeRTO_frame])
qed (simp add: timers_only_refl)

lemma shrink_keeps_last:
  "nodes \<noteq> [] \<Longrightarrow> ack < wn_expectedAck (last nodes) \<Longrightarrow>
     snd (shrink fl now ack sock nodes) \<noteq> [] \<and> last (snd (shrink fl now ack sock nodes)) = last nodes"
proof (induction nodes arbitrary: sock)
  case (Cons h nodes)
  then show ?case by (cases "nodes = []") auto
qed simp

text \<open>Acknowledgements of bytes that were sent.\<close>

definition acks_sent :: "u32 \<Rightarrow> nat \<Rightarrow> TCPInfo \<Rightarrow> bool" where
  "acks_sent u0 t received \<longleftrightarrow> (\<exists>k \<le> t. ti_AckNum received = u0 + of_nat k)"

lemma unat_offset: "unat (u0 :: u32) + length P < 4294967296 \<Longrightarrow> k \<le> length P \<Longrightarrow> unat (u0 + of_nat k) = unat u0 + k"
  by (simp add: unat_word_ariths unat_of_nat)

lemma shrink_last: "snd (shrink fl now ack sock nodes) \<noteq> [] \<Longrightarrow> last (snd (shrink fl now ack sock nodes)) = last nodes"
  by (induction nodes arbitrary: sock) auto

lemma tail_ok_cong:
  assumes "tail_ok k flags P u0 t sd" "sd_payload sd' = sd_payload sd" "sd_bytesToSend sd' = sd_bytesToSend sd" "sd_tail sd' = sd_tail sd"
    and "0 < nat (sd_bytesToSend sd) \<Longrightarrow> sd_nodes sd' \<noteq> []" "sd_nodes sd' \<noteq> [] \<Longrightarrow> last (sd_nodes sd') = sd_tail sd"
  shows "tail_ok k flags P u0 t sd'"
  using assms by (auto simp: tail_ok_def Let_def)

lemma takeAck_sending:
  assumes inv: "sending flags P u0 a t sock sd" and bound: "unat u0 + length P < 4294967296"
    and ack: "acks_sent u0 t received" and take: "takeAck fl now received sock sd = Some (sock', sd')"
  shows "\<exists>a'. sending flags P u0 a' t sock' sd' \<and> so_key sock' = so_key sock"
proof -
  obtain k where k: "k \<le> t" "ti_AckNum received = u0 + of_nat k" using ack by (auto simp: acks_sent_def)
  have at: "a \<le> t" "t \<le> length P" "so_cumWriteUNA sock = u0 + of_nat a" and tail: "tail_ok (so_key sock) flags P u0 t sd"
    using inv by (simp_all add: sending_def)
  have nums: "unat (u0 + of_nat k) = unat u0 + k" "unat (u0 + of_nat a) = unat u0 + a"
    using unat_offset [OF bound] k at by simp_all
  show ?thesis
  proof (cases "so_cumWriteUNA sock < ti_AckNum received \<and>
      \<not> (case map_of (so_unackedNums sock) (ti_AckNum received) of None \<Rightarrow> 0 | Some k \<Rightarrow> k) \<noteq> 0")
    case False
    then have "\<exists>nums w mtx. sock' = sock\<lparr>so_unackedNums := nums, so_ClientWindowSize := w, so_unackedMtx := mtx\<rparr> \<and> sd' = sd"
      using take by (cases sock) (auto simp: takeAck_def Let_def split: if_splits option.splits)
    with inv show ?thesis by (auto simp: sending_def)
  next
    case True
    then have less: "a < k" using k at nums by (simp add: word_less_nat_alt)
    define sock2 where "sock2 = sock\<lparr>so_unackedNums := AList.update (ti_AckNum received) 1 (so_unackedNums sock),
      so_ClientWindowSize := ti_WindowSize received, so_cumWriteUNA := ti_AckNum received,
      so_writeBuffer := map_option (\<lambda>wb. wb\<lparr>wb_UNA := (ti_AckNum received - so_baseSeq sock + WINDOW_SIZE) mod WINDOW_SIZE\<rparr>) (so_writeBuffer sock)\<rparr>"
    let ?sh = "shrink fl now (ti_AckNum received) sock2 (sd_nodes sd)"
    have res: "sock' = fst ?sh" "sd' = sd\<lparr>sd_bytesSent := sd_bytesSent sd + uint (ti_AckNum received - so_cumWriteUNA sock), sd_nodes := snd ?sh\<rparr>"
      using take True by (auto simp: takeAck_def Let_def sock2_def split: if_splits prod.splits option.splits)
    have "timers_only sock2 sock'" unfolding res(1) by (rule shrink_frame)
    then obtain rto srtt where s': "sock' = sock2\<lparr>so_RTO := rto, so_SRTT := srtt\<rparr>" unfolding timers_only_def by (rule that)
    have "unat (ti_AckNum received - so_cumWriteUNA sock) = k - a"
      using k(2) at(3) nums less by (subst unat_sub) (simp_all add: word_le_nat_alt)
    then have sent: "uint (ti_AckNum received - so_cumWriteUNA sock) = int k - int a"
      using less by (simp only: uint_nat of_nat_diff less_imp_le)
    have "tail_ok (so_key sock) flags P u0 t sd'"
    proof (rule tail_ok_cong [OF tail])
      assume b: "0 < nat (sd_bytesToSend sd)"
      then have "sd_nodes sd \<noteq> []" "last (sd_nodes sd) = sd_tail sd" "t + nat (sd_bytesToSend sd) \<le> length P"
          "wn_expectedAck (sd_tail sd) = u0 + of_nat (t + nat (sd_bytesToSend sd))"
        using tail by (simp_all add: tail_ok_def Let_def)
      moreover from this(4) have "ti_AckNum received < wn_expectedAck (last (sd_nodes sd))"
        using b k nums(1) calculation(2,3) unat_offset [OF bound, of "t + nat (sd_bytesToSend sd)"]
        by (simp add: word_less_nat_alt del: of_nat_add)
      ultimately show "sd_nodes sd' \<noteq> []"
        using shrink_keeps_last [of "sd_nodes sd" "ti_AckNum received"] by (simp add: res(2))
    next
      assume n: "sd_nodes sd' \<noteq> []"
      then have "sd_nodes sd \<noteq> []" by (auto simp: res(2))
      with n shrink_last [of fl now "ti_AckNum received" sock2 "sd_nodes sd"] tail show "last (sd_nodes sd') = sd_tail sd"
        by (simp add: res(2) tail_ok_def Let_def)
    qed (simp_all add: res(2))
    then have "sending flags P u0 k t sock' sd'"
      using inv k sent less by (auto simp: sending_def s' sock2_def res(2) ring_self)
    then show ?thesis by (auto simp: s' sock2_def)
  qed
qed

lemma takeAcks_sending:
  assumes "sending flags P u0 a t sock sd" "unat u0 + length P < 4294967296"
    and "\<forall>x \<in> set acks. acks_sent u0 t (snd x)" "takeAcks fl acks sock sd = Some (sock', sd')"
  shows "\<exists>a'. sending flags P u0 a' t sock' sd' \<and> so_key sock' = so_key sock"
  using assms
proof (induction acks arbitrary: a sock sd)
  case Nil
  then show ?case by auto
next
  case (Cons x acks)
  obtain now received where x: "x = (now, received)" by (cases x)
  obtain sock1 sd1 where s1: "takeAck fl now received sock sd = Some (sock1, sd1)" "takeAcks fl acks sock1 sd1 = Some (sock', sd')"
    using Cons.prems(4) by (auto simp: x split: option.splits)
  have "acks_sent u0 t received" using Cons.prems(3) by (simp add: x)
  from takeAck_sending [OF Cons.prems(1,2) this s1(1)] obtain a1 where
    "sending flags P u0 a1 t sock1 sd1" "so_key sock1 = so_key sock" by blast
  with Cons.IH [OF this(1) Cons.prems(2) _ s1(2)] Cons.prems(3) show ?case by auto
qed

section \<open>Runs of the loop\<close>

text \<open>An acknowledgement for something that was sent: no further than the code's own end of what is in flight.\<close>

definition sent_ack :: "u32 \<Rightarrow> NormalSocket \<Rightarrow> TCPInfo \<Rightarrow> bool" where
  "sent_ack u0 sock received \<longleftrightarrow> u0 \<le> ti_AckNum received \<and>
     (\<exists>wb. so_writeBuffer sock = Some wb \<and> ti_AckNum received \<le> wb_dist wb + so_cumWriteUNA sock)"

text \<open>
  What \<open>slidingWindow\<close> relies on while it runs: the other threads of the connection leave its own
  part of the socket alone. \<open>ReceiverThread\<close>, for one, changes the window size of the peer.
\<close>

definition sender_rely :: "NormalSocket \<Rightarrow> NormalSocket \<Rightarrow> bool" where
  "sender_rely sock sock' \<longleftrightarrow> so_key sock' = so_key sock \<and> so_baseSeq sock' = so_baseSeq sock \<and>
     so_cumWriteUNA sock' = so_cumWriteUNA sock \<and> (so_readBuffer sock \<noteq> None \<longrightarrow> so_readBuffer sock' \<noteq> None) \<and>
     rel_option (\<lambda>wb wb'. wb_NXT wb' = wb_NXT wb \<and> wb_UNA wb' = wb_UNA wb) (so_writeBuffer sock) (so_writeBuffer sock')"

text \<open>
  A call of \<open>slidingWindow\<close> and the turns of its loop, with the IP packets it has sent so far, while
  the other threads run and \<open>retransThread\<close> repeats segments. Turns that probe a closed window are
  left out, and acknowledgements are for what was sent.
\<close>

inductive transmits ::
  "netstack \<Rightarrow> Node \<Rightarrow> (real \<Rightarrow> real) \<Rightarrow> TCPPacket \<Rightarrow> u32 \<Rightarrow> NormalSocket \<Rightarrow> Sending \<Rightarrow> tcp_effect list \<Rightarrow> bool"
  for ns n fl packet u0 where
  begin_sending: "idle u0 sock \<Longrightarrow> startSending sock packet = Inr sd \<Longrightarrow> transmits ns n fl packet u0 sock sd []"
| next_turn: "transmits ns n fl packet u0 sock sd es \<Longrightarrow> sendTail ns n (tn_now tn) sock sd = Inr (Some (sock2, sd2, gs)) \<Longrightarrow>
    \<forall>x \<in> set (tn_acks tn). sent_ack u0 sock2 (snd x) \<Longrightarrow>
    probeStep ns n packet (tn_events tn) sock sd = Inr (Some (sock, sd, [], NoProbe)) \<Longrightarrow>
    slidingWindow_turn ns n fl packet tn sock sd = Inr (Some (InProgress sock' sd', fs)) \<Longrightarrow>
    transmits ns n fl packet u0 sock' sd' (es @ fs)"
| other_threads: "transmits ns n fl packet u0 sock sd es \<Longrightarrow> sender_rely sock sock' \<Longrightarrow> transmits ns n fl packet u0 sock' sd es"
| retransmission: "transmits ns n fl packet u0 sock sd es \<Longrightarrow>
    retransThread_tick ns n fl now k sock sd = Inr (sock', sd', fs, k', stop) \<Longrightarrow> transmits ns n fl packet u0 sock' sd' es"

lemma sender_rely_refl: "sender_rely sock sock"
  by (simp add: sender_rely_def option.rel_refl)

lemma sender_rely_trans: "sender_rely s t \<Longrightarrow> sender_rely t u \<Longrightarrow> sender_rely s u"
  by (cases "so_writeBuffer s"; cases "so_writeBuffer t"; cases "so_writeBuffer u") (simp_all add: sender_rely_def)

lemma sending_rely:
  assumes "sending flags P u0 a t sock sd" "sender_rely sock sock'"
  shows "sending flags P u0 a t sock' sd"
  using assms by (cases "so_writeBuffer sock'") (auto simp: sending_def sender_rely_def)

lemma timers_rely: "timers_only sock sock' \<Longrightarrow> sender_rely sock sock'"
  by (cases sock; cases sock') (simp add: timers_only_def sender_rely_def option.rel_refl)

lemma tail_ok_retransmit:
  assumes "tail_ok k flags P u0 t sd" "i < length (sd_nodes sd)" "wn_packet (sd_nodes sd ! i) = Some p"
  shows "tail_ok k flags P u0 t (snd (retransmit sock rb now p i sd))"
proof (cases "i = length (sd_nodes sd) - 1")
  case True
  then have "last (sd_nodes sd) = sd_nodes sd ! i" using assms(2) by (subst last_conv_nth) auto
  then have "sd_tail sd = sd_nodes sd ! i" using assms(1,2) by (auto simp: tail_ok_def Let_def)
  with assms True show ?thesis
    by (auto simp: tail_ok_def Let_def retransmit_def setNode_def last_conv_nth is_segment_def)
next
  case False
  then have "last ((sd_nodes sd)[i := nd]) = last (sd_nodes sd)" for nd
    using assms(2) by (subst last_list_update) auto
  with assms show ?thesis by (auto simp: tail_ok_def Let_def retransmit_def setNode_def)
qed

lemma retransThread_cases:
  assumes "retransThread_tick ns n fl now k sock sd = Inr (sock', sd', fs, k', stop)"
  shows "sock' = recomputeRTO fl (-1) sock \<and> (sd' = sd \<or>
    (\<exists>rb p i. sd' = snd (retransmit sock' rb now p i sd) \<and> i < length (sd_nodes sd) \<and> wn_packet (sd_nodes sd ! i) = Some p))"
proof (cases "so_ClientWindowSize (recomputeRTO fl (-1) sock) = 0 \<or> sd_nodes sd = []")
  case True
  then have "retransThread_tick ns n fl now k sock sd = Inr (recomputeRTO fl (-1) sock, sd, [Ip (Print ''ticker expired'')], k, False)"
    by (cases k) (auto simp: retransThread_tick_def Let_def)
  with assms show ?thesis by simp
next
  case False
  then obtain h rest where nodes: "sd_nodes sd = h # rest" by (cases "sd_nodes sd") auto
  let ?s = "recomputeRTO fl (-1) sock" and
    ?again = "\<exists>rb p i. sd' = snd (retransmit (recomputeRTO fl (-1) sock) rb now p i sd) \<and> i < length (sd_nodes sd) \<and> wn_packet (sd_nodes sd ! i) = Some p"
  have head: "?again" if "retransmit ?s rb now p 0 sd = (p', sd')" "wn_packet h = Some p" for rb p p'
    using that by (intro exI [of _ rb] exI [of _ p] exI [of _ 0]) (simp add: nodes)
  have second: "?again" if "retransmit ?s rb now p (Suc 0) sd = (p', sd')" "rest = nx # xs" "wn_packet nx = Some p" for rb p p' nx xs
    using that by (intro exI [of _ rb] exI [of _ p] exI [of _ "Suc 0"]) (simp add: nodes)
  show ?thesis
  proof (cases "wn_expectedAck h = 0")
    case True
    then show ?thesis
      using assms False
      by (cases k; cases rest; cases "wn_lastSent (hd rest)"; cases "wn_packet (hd rest)")
        (auto simp: retransThread_tick_def Let_def withBuffers_def bindr_eq_Inr nodes split: option.splits prod.splits
          dest: second [unfolded nodes])
  next
    case e: False
    then show ?thesis
      using assms False
      by (cases k; cases "wn_lastSent h"; cases "wn_packet h")
        (auto simp: retransThread_tick_def Let_def withBuffers_def bindr_eq_Inr nodes split: option.splits prod.splits if_splits
          dest: head [unfolded nodes])
  qed
qed

lemma retrans_sending:
  assumes "sending flags P u0 a t sock sd" "retransThread_tick ns n fl now k sock sd = Inr (sock', sd', fs, k', stop)"
  shows "sending flags P u0 a t sock' sd' \<and> so_key sock' = so_key sock"
proof -
  have s': "sock' = recomputeRTO fl (-1) sock"
    and sd': "sd' = sd \<or> (\<exists>rb p i. sd' = snd (retransmit sock' rb now p i sd) \<and> i < length (sd_nodes sd) \<and> wn_packet (sd_nodes sd ! i) = Some p)"
    using retransThread_cases [OF assms(2)] by blast+
  have rely: "sender_rely sock sock'" unfolding s' by (rule timers_rely [OF recomputeRTO_frame])
  then have inv: "sending flags P u0 a t sock' sd" by (rule sending_rely [OF assms(1)])
  have "sending flags P u0 a t sock' sd'"
    using sd'
  proof (elim disjE exE conjE)
    fix rb p i
    assume "sd' = snd (retransmit sock' rb now p i sd)" "i < length (sd_nodes sd)" "wn_packet (sd_nodes sd ! i) = Some p"
    with inv tail_ok_retransmit [of "so_key sock'" flags P u0 t sd i p sock' rb now] show ?thesis
      by (simp add: sending_def) (simp add: retransmit_def setNode_def Let_def)
  qed (use inv in simp)
  with rely show ?thesis by (simp add: sender_rely_def)
qed

text \<open>The other threads keep to it.\<close>

lemma insertPayload_rely: "insertPayload sock q xs = Inr (Some sock') \<Longrightarrow> sender_rely sock sock'"
  by (auto simp: insertPayload_def Let_def sender_rely_def option.rel_refl bindo_eq_Some split: option.splits)

lemma finReceived_rely: "finReceived sock = Some (sock', es) \<Longrightarrow> sender_rely sock sock'"
  by (auto simp: finReceived_def sender_rely_def option.rel_refl split: if_splits)

lemma drain_early_rely: "drain_early ns fuel sock = Inr (Some (sock', es)) \<Longrightarrow> sender_rely sock sock'"
proof (induction fuel arbitrary: sock es)
  case 0
  then show ?case by (subst (asm) drain_early.simps) (auto simp: sender_rely_refl split: if_splits)
next
  case (Suc fuel)
  have pop: "sender_rely sock (sock\<lparr>so_earlyPQ := q\<rparr>)" for q by (simp add: sender_rely_def option.rel_refl)
  from Suc.prems show ?case
    apply (subst (asm) drain_early.simps)
    apply (auto simp: sender_rely_refl bindr_eq_Inr bindo_eq_Some Let_def split: if_splits option.splits
        dest!: Suc.IH insertPayload_rely finReceived_rely)
    apply (blast intro: sender_rely_trans pop)+
    done
qed

lemma receiver_rely:
  assumes "ReceiverThread_step ns n sock p = Inr (Some (sock', es))"
  shows "sender_rely sock sock'"
proof -
  let ?s = "sock\<lparr>so_ClientWindowSize := ti_WindowSize p\<rparr>"
  have w: "sender_rely sock ?s" "sender_rely sock (?s\<lparr>so_cumReadNXT := c\<rparr>)" "sender_rely sock (earlyArrival ?s p)" for c
    by (simp_all add: sender_rely_def option.rel_refl earlyArrival_def Let_def)
  have rest: "receiveRest ns n p (s, fs) = Inr (Some (sock', es)) \<Longrightarrow> sender_rely s sock'" for s fs
    by (auto simp: receiveRest_def bindo_eq_Some bindr_eq_Inr split: option.splits dest: drain_early_rely)
  show ?thesis
    using assms w sender_rely_refl
    apply (auto simp: ReceiverThread_step_def Let_def bindo_eq_Some split: if_splits option.splits
      dest!: rest insertPayload_rely finReceived_rely)
    apply (blast intro: sender_rely_trans w)+
    done
qed

lemma reader_rely: "VRead sock k ferr = Inr (sock', r) \<Longrightarrow> sender_rely sock sock'"
  by (auto simp: VRead_def bindr_eq_Inr sender_rely_def option.rel_refl split: if_splits option.splits)

lemma writeChunk_frame: "writeChunk wb chunk = Inr wb' \<Longrightarrow> wb_NXT wb' = wb_NXT wb \<and> wb_UNA wb' = wb_UNA wb"
  by (auto simp: writeChunk_def Let_def bindr_eq_Inr)

lemma writer_rely: "VWrite_turn message b new sock = Inr (sock', b', lbw) \<Longrightarrow> sender_rely sock sock'"
proof -
  assume a: "VWrite_turn message b new sock = Inr (sock', b', lbw)"
  then obtain wb where wb: "so_writeBuffer sock = Some wb" by (cases "so_writeBuffer sock") (simp_all add: VWrite_turn_def)
  with a obtain chunk wb' where "writeChunk wb chunk = Inr wb'" "sock' = sock\<lparr>so_writeBuffer := Some wb', so_notFirstWrite := True\<rparr>"
    unfolding VWrite_turn_def Let_def by (auto simp only: option.case bindr_eq_Inr sum.inject prod.inject)
  with wb show ?thesis by (simp add: sender_rely_def writeChunk_frame)
qed

lemma sent_ack_acks_sent:
  assumes "sending flags P u0 a t sock sd" "length P \<le> 65535" "unat u0 + length P < 4294967296" "sent_ack u0 sock received"
  shows "acks_sent u0 t received"
proof -
  obtain wb where wb: "so_writeBuffer sock = Some wb" "wb_NXT wb = (u0 + of_nat t - so_baseSeq sock) mod WINDOW_SIZE"
      "wb_UNA wb = (u0 + of_nat a - so_baseSeq sock) mod WINDOW_SIZE" "so_cumWriteUNA sock = u0 + of_nat a" "a \<le> t" "t \<le> length P"
    using assms(1) by (auto simp: sending_def)
  then have "wb_dist wb + so_cumWriteUNA sock = u0 + of_nat t"
    using wb_dist_in_flight [OF wb(2,3,5)] assms(2) by simp
  then have r: "u0 \<le> ti_AckNum received" "ti_AckNum received \<le> u0 + of_nat t"
    using assms(4) wb(1) by (auto simp: sent_ack_def)
  then have le: "unat u0 \<le> unat (ti_AckNum received)" "unat (ti_AckNum received) \<le> unat u0 + t"
    using unat_offset [OF assms(3) wb(6)] by (simp_all add: word_le_nat_alt)
  then have "ti_AckNum received = u0 + of_nat (unat (ti_AckNum received) - unat u0)"
    by (simp add: word_unat_eq_iff unat_offset [OF assms(3)] wb(6) order_trans)
  with le show ?thesis unfolding acks_sent_def by (intro exI [of _ "unat (ti_AckNum received) - unat u0"]) auto
qed

lemma turn_sending:
  assumes inv: "sending flags P u0 a t sock sd" and P: "length P \<le> 65535" "unat u0 + length P < 4294967296"
    and send: "sendTail ns n (tn_now tn) sock sd = Inr (Some (sock2, sd2, gs))"
    and acks: "\<forall>x \<in> set (tn_acks tn). sent_ack u0 sock2 (snd x)"
    and probe: "probeStep ns n packet (tn_events tn) sock sd = Inr (Some (sock, sd, [], NoProbe))"
    and turn: "slidingWindow_turn ns n fl packet tn sock sd = Inr (Some (InProgress sock' sd', fs))"
  shows "\<exists>a' t' ps. sending flags P u0 a' t' sock' sd' \<and> so_key sock' = so_key sock \<and> fs = concat (map (onWire ns n) ps) \<and>
    (ps = [] \<and> t' = t \<or> (\<exists>b p. ps = [p] \<and> t' = t + b \<and> 0 < b \<and> b \<le> 1360 \<and> t + b \<le> length P \<and>
       is_segment (so_key sock) flags P u0 t b p))"
proof -
  let ?sd3 = "if so_ClientWindowSize sock2 = 0 then sd2\<lparr>sd_skip_probe := False\<rparr> else sd2"
  have fs: "fs = gs" and take: "takeAcks fl (tn_acks tn) sock2 ?sd3 = Some (sock', sd')"
    using turn send probe by (auto simp: slidingWindow_turn_def Let_def split: option.splits if_splits)
  have step: "\<exists>t' ps. sending flags P u0 a t' sock2 sd2 \<and> so_key sock2 = so_key sock \<and> gs = concat (map (onWire ns n) ps) \<and>
    (ps = [] \<and> t' = t \<or> (\<exists>b p. ps = [p] \<and> t' = t + b \<and> 0 < b \<and> b \<le> 1360 \<and> t + b \<le> length P \<and>
       is_segment (so_key sock) flags P u0 t b p))"
    using sendTail_sending [OF inv P(1) send]
  proof (elim disjE exE conjE)
    assume "sock2 = sock" "sd2 = sd" "gs = []"
    with inv show ?thesis by (intro exI [of _ t] exI [of _ "[]"]) simp
  next
    fix b p
    assume "0 < b" "b \<le> 1360" "t + b \<le> length P" "is_segment (so_key sock) flags P u0 t b p" "gs = onWire ns n p"
      "sending flags P u0 a (t + b) sock2 sd2" "so_key sock2 = so_key sock"
    then show ?thesis by (intro exI [of _ "t + b"] exI [of _ "[p]"]) simp
  qed
  then obtain t' ps where s2: "sending flags P u0 a t' sock2 sd2" "so_key sock2 = so_key sock" "gs = concat (map (onWire ns n) ps)"
    and cut: "ps = [] \<and> t' = t \<or> (\<exists>b p. ps = [p] \<and> t' = t + b \<and> 0 < b \<and> b \<le> 1360 \<and> t + b \<le> length P \<and>
       is_segment (so_key sock) flags P u0 t b p)"
    by (elim exE conjE)
  have s3: "sending flags P u0 a t' sock2 ?sd3" using s2(1) by (simp add: sending_def tail_ok_def)
  have "\<forall>x \<in> set (tn_acks tn). acks_sent u0 t' (snd x)" using acks sent_ack_acks_sent [OF s2(1) P] by blast
  from takeAcks_sending [OF s3 P(2) this take] obtain a' where "sending flags P u0 a' t' sock' sd'" "so_key sock' = so_key sock2"
    by blast
  with s2(2,3) cut fs show ?thesis by (intro exI [of _ a'] exI [of _ t'] exI [of _ ps]) simp
qed

section \<open>The segments of a run\<close>

definition cut :: "u32 \<Rightarrow> TCPPacket \<Rightarrow> nat \<times> bytes" where
  "cut u0 p = (unat (tp_seqNum p) - unat u0, tp_payload p)"

definition from_to :: "SocketTableKey \<Rightarrow> u8 \<Rightarrow> TCPPacket \<Rightarrow> bool" where
  "from_to k flags p \<longleftrightarrow> tp_sourceIp p = sk_LocalAddr k \<and> tp_destIp p = sk_RemoteAddr k \<and>
     tp_sourcePort p = sk_LocalPort k \<and> tp_destPort p = sk_RemotePort k \<and> tp_flags p = flags"

lemma segments_snoc: "segments k (cs @ [c]) = segments k cs @ [(k + length (concat cs), c)]"
  by (induction cs arbitrary: k) simp_all

text \<open>\<open>ps\<close> are the segments of the first \<open>t\<close> bytes, in order and without a gap.\<close>

definition cut_upto :: "SocketTableKey \<Rightarrow> u8 \<Rightarrow> bytes \<Rightarrow> u32 \<Rightarrow> nat \<Rightarrow> TCPPacket list \<Rightarrow> bytes list \<Rightarrow> bool" where
  "cut_upto k flags P u0 t ps cs \<longleftrightarrow> map (cut u0) ps = segments 0 cs \<and> concat cs = take t P \<and>
     (\<forall>c \<in> set cs. c \<noteq> [] \<and> length c \<le> 1360) \<and> (\<forall>p \<in> set ps. from_to k flags p \<and> u0 \<le> tp_seqNum p)"

lemma cut_upto_next:
  assumes "cut_upto k flags P u0 t ps cs" "is_segment k flags P u0 t b p" "0 < b" "b \<le> 1360" "t + b \<le> length P"
    and "unat u0 + length P < 4294967296"
  shows "cut_upto k flags P u0 (t + b) (ps @ [p]) (cs @ [take b (drop t P)])"
proof -
  have cs: "concat cs = take t P" using assms(1) by (simp add: cut_upto_def)
  have "length (concat cs) = t" unfolding cs using assms(5) by simp
  moreover have "cut u0 p = (t, take b (drop t P))"
    using assms(2,5) unat_offset [OF assms(6), of t] by (simp add: cut_def is_segment_def)
  moreover have "u0 \<le> tp_seqNum p"
    using assms(2,5) unat_offset [OF assms(6), of t] by (simp add: is_segment_def word_le_nat_alt)
  ultimately show ?thesis
    using assms by (auto simp: cut_upto_def segments_snoc take_add is_segment_def from_to_def simp del: length_concat)
qed

lemma transmits_cut:
  assumes "transmits ns n fl packet u0 sock sd es" "length (tp_payload packet) \<le> 65535"
    and "unat u0 + length (tp_payload packet) < 4294967296"
  shows "\<exists>a t ps cs. sending (tp_flags packet) (tp_payload packet) u0 a t sock sd \<and> es = concat (map (onWire ns n) ps) \<and>
    cut_upto (so_key sock) (tp_flags packet) (tp_payload packet) u0 t ps cs"
  using assms(1)
proof (induction rule: transmits.induct)
  case (begin_sending sock sd)
  have "sending (tp_flags packet) (tp_payload packet) u0 0 0 sock sd"
    by (rule startSending_sending [OF begin_sending])
  moreover have "cut_upto (so_key sock) (tp_flags packet) (tp_payload packet) u0 0 [] []" by (simp add: cut_upto_def)
  ultimately show ?case by (intro exI [of _ 0] exI [of _ "[]"]) simp
next
  case (next_turn sock sd es tn sock2 sd2 gs sock' sd' fs)
  then obtain a t ps cs where inv: "sending (tp_flags packet) (tp_payload packet) u0 a t sock sd" "es = concat (map (onWire ns n) ps)"
    "cut_upto (so_key sock) (tp_flags packet) (tp_payload packet) u0 t ps cs" by (elim exE conjE)
  from turn_sending [OF inv(1) assms(2,3) next_turn.hyps(2-5)] obtain a' t' qs where
    s': "sending (tp_flags packet) (tp_payload packet) u0 a' t' sock' sd'" "so_key sock' = so_key sock" "fs = concat (map (onWire ns n) qs)"
    and cut: "qs = [] \<and> t' = t \<or> (\<exists>b p. qs = [p] \<and> t' = t + b \<and> 0 < b \<and> b \<le> 1360 \<and> t + b \<le> length (tp_payload packet) \<and>
       is_segment (so_key sock) (tp_flags packet) (tp_payload packet) u0 t b p)"
    by (elim exE conjE)
  have "\<exists>cs'. cut_upto (so_key sock) (tp_flags packet) (tp_payload packet) u0 t' (ps @ qs) cs'"
    using cut inv(3) cut_upto_next [OF inv(3) _ _ _ _ assms(3)] by auto
  moreover have "es @ fs = concat (map (onWire ns n) (ps @ qs))" using inv(2) s'(3) by simp
  ultimately show ?case using s'(1,2) by metis
next
  case (other_threads sock sd es sock')
  then have "so_key sock' = so_key sock" by (simp add: sender_rely_def)
  with other_threads.IH sending_rely [OF _ other_threads.hyps(2)] show ?case by metis
next
  case (retransmission sock sd es now k sock' sd' fs k' stop)
  from retransmission.IH retrans_sending [OF _ retransmission.hyps(2)] show ?case by metis
qed

text \<open>
  C3. As long as its loop does not probe a closed window and acknowledgements are for bytes that
  were sent, \<open>slidingWindow\<close> sends exactly its payload, whatever the other threads do to the rest
  of the socket between its turns and however often \<open>retransThread\<close> repeats segments: the IP
  packets the loop has handed to the node are those of segments that cut a prefix of the payload
  into pieces of one to 1360 bytes, in order, without gap or overlap, each with the sequence number
  of its first byte; and when the loop ends, they are segments of the whole payload. The payload
  fits the buffer and does not reach over the end of the sequence numbers.
\<close>

theorem sender_segments:
  assumes "transmits ns n fl packet u0 sock sd es" "length (tp_payload packet) \<le> 65535"
    and "unat u0 + length (tp_payload packet) < 4294967296"
  shows "\<exists>t ps cs. es = concat (map (onWire ns n) ps) \<and> cut_upto (so_key sock) (tp_flags packet) (tp_payload packet) u0 t ps cs \<and>
    (\<not> sd_bytesSent sd < sd_payloadSize sd \<longrightarrow> concat cs = tp_payload packet)"
proof -
  from transmits_cut [OF assms] obtain a t ps cs where
    inv: "sending (tp_flags packet) (tp_payload packet) u0 a t sock sd" "es = concat (map (onWire ns n) ps)"
    "cut_upto (so_key sock) (tp_flags packet) (tp_payload packet) u0 t ps cs"
    by (elim exE conjE)
  have "concat cs = tp_payload packet" if "\<not> sd_bytesSent sd < sd_payloadSize sd"
    using inv(1,3) that by (simp add: sending_def cut_upto_def)
  with inv(2,3) show ?thesis by blast
qed

definition ex_sender :: NormalSocket where
  "ex_sender = connectedSocket (connectingSocket 0 ex_key) (ex_data 6000 [])"

definition ex_packet :: TCPPacket where
  "ex_packet = dataPacket ex_sender newReadBuffer 0x10 6001 [1, 2, 3]"

lemma ex_sender_fields:
  "so_readBuffer ex_sender = Some newReadBuffer" "so_writeBuffer ex_sender = Some newWriteBuffer" "so_ClientWindowSize ex_sender = 65535"
  "so_cumWriteUNA ex_sender = 6001" "so_key ex_sender = ex_key" "\<not> so_unackedMtx ex_sender" "so_cumReadNXT ex_sender = 6001"
  "tp_payload ex_packet = [1, 2, 3]" "tp_flags ex_packet = 0x10"
  by (simp_all add: ex_sender_def connectedSocket_def connectingSocket_def ex_data_def ex_packet_def dataPacket_def)

lemma ex_sender_sends:
  "\<exists>sock sd pkt. transmits ref_netstack (lan_host 0x0a000001 0x0a000002) id ex_packet 6001 sock sd
     [Ip (ToInterface ''if0'' pkt (Addr4 0x0a000002))]"
proof -
  let ?n = "lan_host 0x0a000001 0x0a000002" and ?tn = "\<lparr>tn_events = [], tn_now = 0, tn_acks = []\<rparr>"
  obtain sd p where sd: "startSending ex_sender ex_packet = Inr sd" "sd_bytesToSend sd = 3" "sd_skip_probe sd"
      "window_open sd = Inr True" "wn_packet (sd_tail sd) = Some p"
    by (simp add: startSending_def ex_sender_fields unat_MSS Let_def window_open_def WINDOW_SIZE_def)
  obtain pkt where pkt: "HandleSend ref_netstack ?n (Addr4 0x0a000002) (marshallTCPPacket ref_netstack p) 6 =
      Inr [ToInterface ''if0'' pkt (Addr4 0x0a000002)]"
    using lan_host_sends(1) by blast
  have key: "sk_RemoteAddr (so_key ex_sender) = Addr4 0x0a000002" by (simp add: ex_sender_fields ex_key_def)
  obtain sock2 sd2 where send: "sendTail ref_netstack ?n 0 ex_sender sd =
      Inr (Some (sock2, sd2, [Ip (ToInterface ''if0'' pkt (Addr4 0x0a000002))]))"
    using sd pkt key by (simp add: sendTail_def ex_sender_fields(1-3,6) Let_def)
  have probe: "probeStep ref_netstack ?n ex_packet [] ex_sender sd = Inr (Some (ex_sender, sd, [], NoProbe))"
    using sd(3) by (simp add: probeStep_def ex_sender_fields needs_probe_def)
  have start: "transmits ref_netstack ?n id ex_packet 6001 ex_sender sd []"
    using idle_connected [of "ex_data 6000 []" "connectingSocket 0 ex_key"] sd(1)
    by (intro transmits.begin_sending) (simp_all add: ex_sender_fields, simp add: ex_sender_def ex_data_def)
  obtain sock' sd' where "slidingWindow_turn ref_netstack ?n id ex_packet ?tn ex_sender sd =
      Inr (Some (InProgress sock' sd', [Ip (ToInterface ''if0'' pkt (Addr4 0x0a000002))]))"
    using send probe by (simp add: slidingWindow_turn_def Let_def)
  from transmits.next_turn [OF start, of ?tn, simplified, OF send probe this] show ?thesis by auto
qed

theorem sender_segments_witness:
  "\<exists>(sock :: NormalSocket) pkt t ps cs. [Ip (ToInterface ''if0'' pkt (Addr4 0x0a000002))] =
       concat (map (onWire ref_netstack (lan_host 0x0a000001 0x0a000002)) ps) \<and> cut_upto (so_key sock) 0x10 [1, 2, 3] 6001 t ps cs"
proof -
  obtain sock sd pkt where "transmits ref_netstack (lan_host 0x0a000001 0x0a000002) id ex_packet 6001 sock sd
      [Ip (ToInterface ''if0'' pkt (Addr4 0x0a000002))]"
    using ex_sender_sends by blast
  from sender_segments [OF this] obtain t ps cs where
    "[Ip (ToInterface ''if0'' pkt (Addr4 0x0a000002))] = concat (map (onWire ref_netstack (lan_host 0x0a000001 0x0a000002)) ps)"
    "cut_upto (so_key sock) 0x10 [1, 2, 3] 6001 t ps cs"
    by (auto simp: ex_sender_fields)
  then show ?thesis by (intro exI [of _ sock] exI [of _ pkt] exI [of _ t] exI [of _ ps] exI [of _ cs] conjI)
qed

section \<open>Writing a message\<close>

lemma writeChunk_LBW: "writeChunk wb chunk = Inr wb' \<Longrightarrow> wb_LBW wb' = (wb_LBW wb + of_nat (length chunk)) mod WINDOW_SIZE"
  by (auto simp: writeChunk_def Let_def bindr_eq_Inr)

text \<open>
  C37. A message that fits into one segment and does not reach over the end of the buffer goes
  through the write buffer unharmed: when nothing is unsent, \<open>VWrite\<close> returns after one message to
  \<open>SenderThread\<close>, whatever happens to the socket in the meantime, and \<open>SenderThread\<close> makes of it a
  segment whose payload is the message.
\<close>

theorem VWrite_message:
  assumes "\<not> so_stateMtx sock" "so_state sock = ESTABLISHED \<or> so_state sock = CLOSE_WAIT"
    and "so_readBuffer sock = Some rb" "so_writeBuffer sock = Some wb" "wb_ok wb" "wb_NXT wb = wb_UNA wb" "pending wb = []"
    and "message \<noteq> []" "length message \<le> 1360" "unat (wb_LBW wb) + length message \<le> 65535"
  shows "\<exists>wb' p. let sock' = sock\<lparr>so_writeBuffer := Some wb', so_notFirstWrite := True\<rparr> in
    VWrite [world] message sock = Inr (Some (Written (world sock') [wb_LBW wb'])) \<and>
    wb_ok wb' \<and> pending wb' = message \<and> senderPacket ns (wb_LBW wb') sock' = Inr (Some p) \<and> tp_payload p = message"
proof -
  have "unat (wb_pending wb) = 0" using arg_cong [OF assms(7), of length] by simp
  then obtain wb' where wb': "writeChunk wb message = Inr wb'" "wb_ok wb'" "pending wb' = message" "wb_NXT wb' = wb_NXT wb" "wb_UNA wb' = wb_UNA wb"
    using writeChunk_pending [OF assms(5), of message] assms(7,9) by auto
  let ?len = "of_nat (length message) :: u32" and ?space = "WINDOW_SIZE - 1 - wb_LBW wb"
  let ?s = "sock\<lparr>so_writeBuffer := Some wb', so_notFirstWrite := True\<rparr>"
  have len: "unat ?len = length message" using assms(9) by (simp add: unat_of_nat)
  have "unat ?space = 65535 - unat (wb_LBW wb)"
    using assms(10) by (subst unat_sub) (simp_all add: WINDOW_SIZE_def word_le_nat_alt)
  then have "?len \<le> ?space" "?len \<le> of_nat (MaxMessageSize - 40)"
    using len assms(9,10) by (simp_all add: word_le_nat_alt MaxMessageSize_def)
  then have tw: "min (min (?len - 0) ?space) (of_nat (MaxMessageSize - 40)) = ?len" by (simp add: min_absorb1)
  then have "VWrite_turn message 0 True sock = Inr (?s, ?len, wb_LBW wb')"
    using assms(4) wb'(1) len by (simp add: VWrite_turn_def Let_def)
  moreover have "0 < ?len" using len assms(8) by (simp add: word_less_nat_alt)
  ultimately have "VWrite [world] message sock = Inr (Some (Written (world ?s) [wb_LBW wb']))"
    using assms(1,2) by (auto simp: VWrite_def VWrite_loop.simps)
  moreover have "senderPayload wb' (wb_LBW wb') = Inr message" using senderPayload_pending [OF wb'(2)] wb'(3) by simp
  ultimately show ?thesis
    using assms(3,6) wb' by (intro exI [of _ wb']) (simp add: senderPacket_def Let_def dataPacket_def)
qed

theorem VWrite_message_witness:
  "\<exists>wb' p. let sock' = ex_sender\<lparr>so_writeBuffer := Some wb', so_notFirstWrite := True\<rparr> in
     VWrite [\<lambda>s. s] [7, 8, 9] ex_sender = Inr (Some (Written sock' [wb_LBW wb'])) \<and>
     senderPacket ref_netstack (wb_LBW wb') sock' = Inr (Some p) \<and> tp_payload p = [7, 8, 9]"
proof -
  have "\<not> so_stateMtx ex_sender" "so_state ex_sender = ESTABLISHED \<or> so_state ex_sender = CLOSE_WAIT"
    by (simp_all add: ex_sender_def connectedSocket_def)
  moreover have "wb_NXT newWriteBuffer = wb_UNA newWriteBuffer" by (simp add: newWriteBuffer_def)
  moreover have "unat (wb_LBW newWriteBuffer) + length [7, 8, 9 :: u8] \<le> 65535" by (simp add: newWriteBuffer_def)
  ultimately show ?thesis
    using VWrite_message [OF _ _ ex_sender_fields(1,2) newWriteBuffer_ok(1) _ newWriteBuffer_ok(2), of "[7, 8, 9]" "\<lambda>s. s" ref_netstack]
    unfolding Let_def by (simp del: length_Cons) blast
qed

section \<open>What the sender does not handle\<close>

text \<open>
  When everything written so far is acknowledged before \<open>VWrite\<close> has finished a longer message, it
  finds no space and goes round in circles: a turn changes nothing.
\<close>

lemma VWrite_no_progress:
  assumes "so_writeBuffer sock = Some wb" "wb_ok wb" "so_notFirstWrite sock" "wb_UNA wb = (wb_LBW wb + 1) mod WINDOW_SIZE"
    and "bytesSent < of_nat (length message)"
  shows "VWrite_turn message bytesSent False sock = Inr (sock, bytesSent, wb_LBW wb)"
proof -
  have "(wb_UNA wb - 1 - wb_LBW wb + WINDOW_SIZE) mod WINDOW_SIZE =
      (((wb_LBW wb + 1) mod WINDOW_SIZE) + (- 1 - wb_LBW wb + WINDOW_SIZE)) mod WINDOW_SIZE"
    by (simp add: assms(4) algebra_simps)
  also have "\<dots> = (wb_LBW wb + 1 + (- 1 - wb_LBW wb + WINDOW_SIZE)) mod WINDOW_SIZE" by (rule ring_move)
  also have "\<dots> = 0" by simp
  finally have space: "(wb_UNA wb - 1 - wb_LBW wb + WINDOW_SIZE) mod WINDOW_SIZE = 0" .
  have l: "unat (wb_LBW wb) < 65536" using assms(2) by (simp add: wb_ok_def less_WINDOW_SIZE)
  have "writeChunk wb [] = Inr wb"
    using writeChunk_ring [OF assms(2), of "[]"] l by simp
  with assms(1,3) space show ?thesis by (simp add: VWrite_turn_def Let_def)
qed

text \<open>
  A duplicate acknowledgement leaves the mutex of the unacknowledged numbers locked: the sender
  cannot take another acknowledgement or send, and the receiver stops at the next segment.
\<close>

lemma duplicate_ack_locks:
  assumes "map_of (so_unackedNums sock) (ti_AckNum received) = Some k" "k \<noteq> 0" "\<not> so_unackedMtx sock"
  shows "\<exists>sock'. takeAck fl now received sock sd = Some (sock', sd) \<and> takeAck fl now' received' sock' sd = None \<and>
    (ti_Flag p AND ns_FlagAck ns \<noteq> 0 \<longrightarrow> ReceiverThread_step ns n sock' p = Inr None)"
  using assms by (auto simp: takeAck_def Let_def ReceiverThread_step_def)

text \<open>
  A successful probe does not move the segment that was waiting: its sequence number stays and so
  does its payload, unless it is the first segment, which loses its first byte. In the first case
  the byte the probe delivered is sent again, in the second the bytes behind it are sent one
  position too early. Yet \<open>NXT\<close> advances by the full \<open>bytesToSend\<close> afterwards, past the segment's end.
\<close>

lemma probe_misaligns:
  assumes "probeStep ns n packet events sock sd = Inr (Some (sock', sd', es, Probed))" "wn_packet (sd_tail sd) = Some p"
  shows "\<exists>p'. wn_packet (sd_tail sd') = Some p' \<and> tp_seqNum p' = tp_seqNum p \<and> sd_bytesToSend sd' = sd_bytesToSend sd \<and>
    wn_expectedAck (sd_tail sd') = wn_expectedAck (sd_tail sd) \<and>
    tp_payload p' = (if wn_index (sd_tail sd) = 0 then tl (sd_firstPayload sd) else tp_payload p)"
  using assms
  by (auto simp: probeStep_def withBuffers_def bindr_eq_Inr Let_def dropFirst_def split: option.splits if_splits)

end
