(* ===== verification/Tcp_Close.thy ===== *)
theory Tcp_Close
  imports Tcp_Stream
begin

text \<open>
  \<open>pkg/tcpstack/tcpstack.go\<close>, sixth part: \<open>VClose\<close> with the goroutine that waits for the
  acknowledgement of the FIN, and the file transfers built from connecting, writing, reading and
  closing. An orderly close takes both ends through the states of TCP; the cases the code does
  not handle are shown as well.
\<close>

section \<open>Closing\<close>

definition finPacket :: "netstack \<Rightarrow> NormalSocket \<Rightarrow> ReadBuffer \<Rightarrow> WriteBuffer \<Rightarrow> TCPPacket" where
  "finPacket ns sock rb wb = dataPacket sock rb (FINACK ns) (wb_dist wb + so_cumWriteUNA sock) []"

text \<open>
  The result is the acknowledgement number the new goroutine waits for, or \<open>None\<close> when the state
  does not allow closing.
\<close>

definition VClose :: "netstack \<Rightarrow> Node \<Rightarrow> NormalSocket \<Rightarrow> (NormalSocket \<times> tcp_effect list \<times> u32 option) option res" where
  "VClose ns n sock = withBuffers sock (\<lambda>rb wb.
     let packet = finPacket ns sock rb wb;
         awaited = tp_seqNum packet + 1
     in if so_stateMtx sock then Inr None
        else if so_state sock \<noteq> ESTABLISHED \<and> so_state sock \<noteq> CLOSE_WAIT then Inr (Some (sock, [], None))
        else if so_unackedMtx sock then Inr None
        else bindr (HandleSend ns n (sk_RemoteAddr (so_key sock)) (marshallTCPPacket ns packet) 6) (\<lambda>es.
          Inr (Some (sock\<lparr>so_state := (if so_state sock = ESTABLISHED then FIN_WAIT_1 else LAST_ACK),
            so_unackedFINs := AList.update awaited True (so_unackedFINs sock)\<rparr>, map Ip es, Some awaited))))"

text \<open>The goroutine takes a number from \<open>finChan\<close>; the last component says whether it is done.\<close>

definition finAcked :: "u32 \<Rightarrow> u32 \<Rightarrow> TCPStack \<Rightarrow> NormalSocket \<Rightarrow> (TCPStack \<times> NormalSocket \<times> bool) option" where
  "finAcked awaited receivedAck t sock =
     (if receivedAck \<noteq> awaited then Some (t, sock, False)
      else if so_unackedMtx sock then None
      else let sock1 = sock\<lparr>so_unackedFINs := AList.delete receivedAck (so_unackedFINs sock)\<rparr>
           in if so_stateMtx sock then None
              else if so_state sock = FIN_WAIT_1 then Some (t, sock1\<lparr>so_state := FIN_WAIT_2\<rparr>, True)
              else if so_state sock = LAST_ACK then Some (deleteTCB t (Normal sock1), sock1, True)
              else Some (t, sock1, True))"

section \<open>Files\<close>

datatype file_result = FileFailed | NotConnected | SocketClosed SocketTableKey | Transferred SocketTableKey "u32 option"

text \<open>
  \<open>SendFile\<close>: what reading the file left in the buffer, or the error; then connecting, writing and
  closing. The two functions \<open>pause\<close> are what the threads it starts do to the socket while it
  sleeps before writing and before closing.
\<close>

definition SendFile ::
  "netstack \<Rightarrow> Node \<Rightarrow> TCPStack \<Rightarrow> bytes option \<Rightarrow> Addr \<Rightarrow> u16 \<Rightarrow> nat list \<Rightarrow> event list \<Rightarrow>
   (NormalSocket \<Rightarrow> NormalSocket) \<times> (NormalSocket \<Rightarrow> NormalSocket) \<Rightarrow>
   (NormalSocket \<Rightarrow> NormalSocket) list \<Rightarrow> (TCPStack \<times> tcp_effect list \<times> file_result) option res" where
  "SendFile ns n t content addr port draws events = (\<lambda>(pause, pause') worlds.
     case content of
        None \<Rightarrow> Inr (Some (t, [], FileFailed))
      | Some bs \<Rightarrow>
          bindo (VConnect ns n t addr port draws events) (\<lambda>(t1, es, c).
            case c of
              Pending \<Rightarrow> Inr None
            | CouldNotConnect \<Rightarrow> Inr (Some (t1, map Ip es, NotConnected))
            | Connected sock \<Rightarrow>
                bindo (VWrite worlds bs (pause sock)) (\<lambda>w.
                  let fs = map Ip (es @ [Print (show_nat (length bs))])
                  in case w of
                       WriteClosed \<Rightarrow> Inr (Some (t1, fs @ [Ip (Print ''sock closed'')], SocketClosed (so_key sock)))
                     | Written sock1 lbws \<Rightarrow>
                         bindo (VClose ns n (pause' sock1)) (\<lambda>(sock2, gs, awaited).
                           Inr (Some (t1\<lparr>ts_SocketTable := AList.update (so_key sock) (Normal sock2) (ts_SocketTable t1)\<rparr>,
                             fs @ gs, Transferred (so_key sock) awaited))))))"

text \<open>
  One turn of the loop of \<open>ReceiveFile\<close>: the bytes written to the file and whether it ends.
  \<open>pause\<close> is what the other goroutines do before the close, \<open>file_err\<close> the error of writing.
\<close>

definition ReceiveFile_turn ::
  "netstack \<Rightarrow> Node \<Rightarrow> string option \<Rightarrow> (NormalSocket \<Rightarrow> NormalSocket) \<Rightarrow> NormalSocket \<Rightarrow>
   (NormalSocket \<times> tcp_effect list \<times> bytes \<times> bool) option res" where
  "ReceiveFile_turn ns n file_err pause sock =
     (if so_stateMtx sock then Inr None
      else if so_state sock = CLOSE_WAIT then
        bindo (VClose ns n (pause sock)) (\<lambda>(sock', es, _).
          Inr (Some (sock', es @ [Ip (Print ''finished receiving file'')], [], True)))
      else case so_readBuffer sock of
        None \<Rightarrow> Inl NilPanic
      | Some rb \<Rightarrow>
          if rb_used rb \<noteq> 0 then
            bindr (VRead sock 0xffff (file_err \<noteq> None)) (\<lambda>(sock', r).
              case r of
                ReadBytes ys \<Rightarrow> Inr (Some (sock', [], ys, False))
              | ReadClosed \<Rightarrow> Inr (Some (sock', [Ip (Print ''sock closed'')], [], False))
              | FileError \<Rightarrow> Inr (Some (sock', [Ip (Print (the file_err)), Ip (Print (the file_err))], [], False))
              | ReadBlocked \<Rightarrow> Inr None)
          else Inr (Some (sock, [], [], False)))"

text \<open>The loop: what happens to the socket before each turn is the first component of its input.\<close>

fun ReceiveFile_loop ::
  "netstack \<Rightarrow> Node \<Rightarrow> ((NormalSocket \<Rightarrow> NormalSocket) \<times> string option \<times> (NormalSocket \<Rightarrow> NormalSocket)) list \<Rightarrow> NormalSocket \<Rightarrow>
   (NormalSocket \<times> tcp_effect list \<times> bytes) option res" where
  "ReceiveFile_loop ns n [] sock = Inr None"
| "ReceiveFile_loop ns n ((world, file_err, pause) # turns) sock =
     bindo (ReceiveFile_turn ns n file_err pause (world sock)) (\<lambda>(sock', es, ys, finished).
       if finished then Inr (Some (sock', es, ys))
       else bindo (ReceiveFile_loop ns n turns sock') (\<lambda>(sock'', fs, zs). Inr (Some (sock'', es @ fs, ys @ zs))))"

text \<open>
  The goroutine of \<open>ReceiveFile\<close>: it accepts one connection, opens the file (\<open>Some\<close> the error if
  that fails), starts the threads of the socket and receives. The result has what was written.
\<close>

definition ReceiveFile_accept ::
  "netstack \<Rightarrow> Node \<Rightarrow> TCPStack \<Rightarrow> ListenSocket \<Rightarrow> TCPInfo list \<Rightarrow> string option \<Rightarrow>
   ((NormalSocket \<Rightarrow> NormalSocket) \<times> string option \<times> (NormalSocket \<Rightarrow> NormalSocket)) list \<Rightarrow>
   (TCPStack \<times> tcp_effect list \<times> bytes option) option res" where
  "ReceiveFile_accept ns n t lsock arrivals open_err turns =
     bindr (VAccept ns n t lsock arrivals) (\<lambda>(t1, es, c).
       case c of
         Pending \<Rightarrow> Inr None
       | CouldNotConnect \<Rightarrow> Inr (Some (t1, map Ip es, None))
       | Connected sock \<Rightarrow>
           let fs = map Ip (es @ [Print ''connection established''])
           in case open_err of
                Some e \<Rightarrow> Inr (Some (t1, fs @ [Ip (Print e)], None))
              | None \<Rightarrow>
                  bindo (ReceiveFile_loop ns n turns sock) (\<lambda>(sock', gs, ys).
                    Inr (Some (t1\<lparr>ts_SocketTable := AList.update (so_key sock) (Normal sock') (ts_SocketTable t1)\<rparr>,
                      fs @ gs, Some ys))))"

text \<open>Closing does not interfere with a running \<open>slidingWindow\<close>.\<close>

lemma VClose_rely: "VClose ns n sock = Inr (Some (sock', es, x)) \<Longrightarrow> sender_rely sock sock'"
  by (auto simp: VClose_def withBuffers_def Let_def bindr_eq_Inr sender_rely_def option.rel_refl split: option.splits if_splits)

section \<open>The steps of a close\<close>

lemma FINACK_bits:
  assumes "netstack_flags ns"
  shows "FINACK ns AND ns_FlagAck ns \<noteq> 0" "FINACK ns AND ns_FlagFin ns \<noteq> 0" "ns_FlagAck ns AND ns_FlagAck ns \<noteq> 0"
  using assms by (simp_all add: FINACK_def netstack_flags_def)

text \<open>A socket that no goroutine holds and that waits for nothing.\<close>

definition quiet :: "NormalSocket \<Rightarrow> ReadBuffer \<Rightarrow> WriteBuffer \<Rightarrow> bool" where
  "quiet sock rb wb \<longleftrightarrow> so_readBuffer sock = Some rb \<and> so_writeBuffer sock = Some wb \<and> \<not> so_stateMtx sock \<and>
     \<not> so_unackedMtx sock \<and> so_unackedFINs sock = [] \<and> so_earlyPQ sock = []"

definition reaches :: "netstack \<Rightarrow> Node \<Rightarrow> Addr \<Rightarrow> bool" where
  "reaches ns n ip \<longleftrightarrow> (\<forall>seg. \<exists>es. HandleSend ns n ip seg 6 = Inr es)"

lemma VClose_quiet:
  assumes "quiet sock rb wb" "so_state sock = ESTABLISHED \<or> so_state sock = CLOSE_WAIT" "reaches ns n (sk_RemoteAddr (so_key sock))"
  shows "\<exists>es. VClose ns n sock = Inr (Some (sock\<lparr>so_state := (if so_state sock = ESTABLISHED then FIN_WAIT_1 else LAST_ACK),
    so_unackedFINs := [(tp_seqNum (finPacket ns sock rb wb) + 1, True)]\<rparr>, es, Some (tp_seqNum (finPacket ns sock rb wb) + 1)))"
proof -
  obtain es where "HandleSend ns n (sk_RemoteAddr (so_key sock)) (marshallTCPPacket ns (finPacket ns sock rb wb)) 6 = Inr es"
    using assms(3) by (auto simp: reaches_def)
  with assms(1,2) show ?thesis by (auto simp: VClose_def quiet_def Let_def)
qed

lemma fin_step:
  assumes "quiet sock rb wb" "netstack_flags ns" "reaches ns n (sk_LocalAddr (ti_key p))" "ti_Flag p = FINACK ns" "ti_Payload p = []"
    and "ti_SeqNum p = so_cumReadNXT sock" "map_of (so_unackedNums sock) (ti_AckNum p) = None"
    and "so_state sock = ESTABLISHED \<and> st = CLOSE_WAIT \<and> fs = [] \<or> so_state sock = FIN_WAIT_2 \<and> st = TIME_WAIT \<and> fs = [DeleteTCBLater]"
  shows "\<exists>es. ReceiverThread_step ns n sock p = Inr (Some (sock\<lparr>so_ClientWindowSize := ti_WindowSize p,
    so_cumReadNXT := so_cumReadNXT sock + 1, so_state := st\<rparr>, fs @ map Ip es))"
proof -
  let ?s = "sock\<lparr>so_ClientWindowSize := ti_WindowSize p, so_cumReadNXT := so_cumReadNXT sock + 1, so_state := st\<rparr>"
  obtain es where "HandleSend ns n (sk_LocalAddr (ti_key p)) (marshallTCPPacket ns (receiverAck ns ?s rb p)) 6 = Inr es"
    using assms(3) by (auto simp: reaches_def)
  with assms FINACK_bits [OF assms(2)] show ?thesis
    by (auto simp: ReceiverThread_step_def quiet_def finReceived_def receiveRest_def drain_early.simps)
qed

lemma finack_step:
  assumes "netstack_flags ns" "ti_Flag p = ns_FlagAck ns" "so_unackedFINs sock = [(ti_AckNum p, True)]" "\<not> so_unackedMtx sock"
  shows "ReceiverThread_step ns n sock p = Inr (Some (sock\<lparr>so_ClientWindowSize := ti_WindowSize p\<rparr>, [ToFinChan (ti_AckNum p)]))"
  using assms FINACK_bits(3) [OF assms(1)] by (simp add: ReceiverThread_step_def)

lemma close_completes:
  assumes flags: "netstack_flags ns"
    and c: "quiet c rbC wbC" "so_state c = ESTABLISHED" "reaches ns nC (sk_RemoteAddr (so_key c))"
    and s: "quiet s rbS wbS" "so_state s = ESTABLISHED" "reaches ns nS (sk_LocalAddr (so_key c))"
    and keys: "so_key s = flipSocketKeyFields (so_key c)"
    and nums: "so_cumReadNXT s = wb_dist wbC + so_cumWriteUNA c" "so_cumReadNXT c = wb_dist wbS + so_cumWriteUNA s"
    and data: "map_of (so_unackedNums s) (so_cumReadNXT c) = None" "map_of (so_unackedNums c) (so_cumReadNXT s + 1) = None"
  shows "\<exists>c1 c2 c3 c4 s1 s2 s3 s4 e1 e2 e3 e4 x y.
    VClose ns nC c = Inr (Some (c1, e1, Some x)) \<and> so_state c1 = FIN_WAIT_1 \<and>
    ReceiverThread_step ns nS s (segmentInfo (sk_RemoteAddr (so_key c)) (finPacket ns c rbC wbC)) = Inr (Some (s1, e2)) \<and>
    so_state s1 = CLOSE_WAIT \<and>
    ReceiverThread_step ns nC c1 (segmentInfo (sk_LocalAddr (so_key c))
      (receiverAck ns s1 rbS (segmentInfo (sk_RemoteAddr (so_key c)) (finPacket ns c rbC wbC)))) = Inr (Some (c2, [ToFinChan x])) \<and>
    finAcked x x tC c2 = Some (tC, c3, True) \<and> so_state c3 = FIN_WAIT_2 \<and>
    VClose ns nS s1 = Inr (Some (s2, e3, Some y)) \<and> so_state s2 = LAST_ACK \<and>
    ReceiverThread_step ns nC c3 (segmentInfo (sk_LocalAddr (so_key c)) (finPacket ns s1 rbS wbS)) = Inr (Some (c4, DeleteTCBLater # e4)) \<and>
    so_state c4 = TIME_WAIT \<and>
    ReceiverThread_step ns nS s2 (segmentInfo (sk_RemoteAddr (so_key c))
      (receiverAck ns c4 rbC (segmentInfo (sk_LocalAddr (so_key c)) (finPacket ns s1 rbS wbS)))) = Inr (Some (s3, [ToFinChan y])) \<and>
    finAcked y y tS s3 = Some (deleteTCB tS (Normal s4), s4, True)"
proof -
  let ?ipS = "sk_RemoteAddr (so_key c)" and ?ipC = "sk_LocalAddr (so_key c)"
  define x y where "x = so_cumReadNXT s + 1" and "y = so_cumReadNXT c + 1"
  define fin where "fin = segmentInfo ?ipS (finPacket ns c rbC wbC)"
  define c1 where "c1 = c\<lparr>so_state := FIN_WAIT_1, so_unackedFINs := [(x, True)]\<rparr>"
  define s1 where "s1 = s\<lparr>so_ClientWindowSize := ti_WindowSize fin, so_cumReadNXT := x, so_state := CLOSE_WAIT\<rparr>"
  define ack where "ack = segmentInfo ?ipC (receiverAck ns s1 rbS fin)"
  define c2 where "c2 = c1\<lparr>so_ClientWindowSize := ti_WindowSize ack\<rparr>"
  define c3 where "c3 = c2\<lparr>so_unackedFINs := [], so_state := FIN_WAIT_2\<rparr>"
  define fin' where "fin' = segmentInfo ?ipC (finPacket ns s1 rbS wbS)"
  define s2 where "s2 = s1\<lparr>so_state := LAST_ACK, so_unackedFINs := [(y, True)]\<rparr>"
  define c4 where "c4 = c3\<lparr>so_ClientWindowSize := ti_WindowSize fin', so_cumReadNXT := y, so_state := TIME_WAIT\<rparr>"
  define ack' where "ack' = segmentInfo ?ipS (receiverAck ns c4 rbC fin')"
  define s3 where "s3 = s2\<lparr>so_ClientWindowSize := ti_WindowSize ack'\<rparr>"
  note defs = fin_def c1_def s1_def ack_def c2_def c3_def fin'_def s2_def c4_def ack'_def s3_def x_def y_def
    finPacket_def dataPacket_def segmentInfo_def receiverAck_def flipSocketKeyFields_def
  have q: "quiet s1 rbS wbS" "quiet c3 rbC wbC" using c(1) s(1) by (simp_all add: quiet_def defs)
  obtain e1 where 1: "VClose ns nC c = Inr (Some (c1, e1, Some x))"
    using VClose_quiet [OF c(1) _ c(3)] c(2) nums(1) by (auto simp: c1_def x_def finPacket_def dataPacket_def)
  obtain e2 where 2: "ReceiverThread_step ns nS s fin = Inr (Some (s1, map Ip e2))"
    using fin_step [OF s(1) flags, of nS fin CLOSE_WAIT "[]"] s(2,3) data(1) nums(1)
    by (auto simp: s1_def x_def) (auto simp: fin_def segmentInfo_def finPacket_def dataPacket_def)
  have 3: "ReceiverThread_step ns nC c1 ack = Inr (Some (c2, [ToFinChan x]))"
    using finack_step [OF flags, of ack c1 nC] c(1) by (simp add: defs quiet_def)
  have 4: "finAcked x x tC c2 = Some (tC, c3, True)" using c(1) by (simp add: finAcked_def defs quiet_def)
  obtain e3 where 5: "VClose ns nS s1 = Inr (Some (s2, e3, Some y))"
    using VClose_quiet [OF q(1), of ns nS] s(3) nums(2) keys by (auto simp: defs)
  obtain e4 where 6: "ReceiverThread_step ns nC c3 fin' = Inr (Some (c4, DeleteTCBLater # map Ip e4))"
    using fin_step [OF q(2) flags, of nC fin' TIME_WAIT "[DeleteTCBLater]"] c(3) data(2) nums(2) keys
    by (auto simp: defs)
  have 7: "ReceiverThread_step ns nS s2 ack' = Inr (Some (s3, [ToFinChan y]))"
    using finack_step [OF flags, of ack' s2 nS] s(1) by (simp add: defs quiet_def)
  have 8: "finAcked y y tS s3 = Some (deleteTCB tS (Normal (s3\<lparr>so_unackedFINs := []\<rparr>)), s3\<lparr>so_unackedFINs := []\<rparr>, True)"
    using s(1) by (simp add: finAcked_def defs quiet_def Let_def)
  have "so_state c1 = FIN_WAIT_1" "so_state s1 = CLOSE_WAIT" "so_state c3 = FIN_WAIT_2" "so_state s2 = LAST_ACK" "so_state c4 = TIME_WAIT"
    by (simp_all add: c1_def s1_def c3_def s2_def c4_def)
  with 1 2 3 4 5 6 7 8 show ?thesis unfolding fin_def ack_def fin'_def ack'_def by blast
qed

text \<open>
  The receiver takes a FIN for a mere acknowledgement when it has itself sent data up to the number
  the FIN acknowledges: numbers stay in the table after they are acknowledged. The state does not
  change, and the close never completes.
\<close>

lemma fin_swallowed:
  assumes "netstack_flags ns" "ti_Flag p = FINACK ns" "ti_Payload p = []" "\<not> so_unackedMtx sock" "so_unackedFINs sock = []"
    and "map_of (so_unackedNums sock) (ti_AckNum p) = Some k"
  shows "ReceiverThread_step ns n sock p = Inr (Some (sock\<lparr>so_ClientWindowSize := ti_WindowSize p\<rparr>, [ToAckChan p]))"
  using assms FINACK_bits [OF assms(1)] by (simp add: ReceiverThread_step_def)

text \<open>
  C9. Closing. Two connected ends agree on the numbers and hold no locks; the first, which never
  waited for an acknowledgement past its data, calls \<open>VClose\<close>. If the second end has never sent
  data up to the number the FIN acknowledges, which is so when it has sent none, the close is
  orderly: the FIN takes it to CLOSE\_WAIT, the acknowledgement takes the first end to FIN\_WAIT\_2;
  when the second end closes too, its FIN takes the first to TIME\_WAIT, and the acknowledgement
  removes the second end's socket from its table; no step blocks or panics. If the second end has
  sent data up to that number, its receiver hands the FIN on as an acknowledgement of the data,
  keeps its state and sends nothing back.
\<close>

theorem orderly_close:
  assumes flags: "netstack_flags ns"
    and c: "quiet c rbC wbC" "so_state c = ESTABLISHED" "reaches ns nC (sk_RemoteAddr (so_key c))"
    and s: "quiet s rbS wbS" "so_state s = ESTABLISHED" "reaches ns nS (sk_LocalAddr (so_key c))"
    and keys: "so_key s = flipSocketKeyFields (so_key c)"
    and nums: "so_cumReadNXT s = wb_dist wbC + so_cumWriteUNA c" "so_cumReadNXT c = wb_dist wbS + so_cumWriteUNA s"
    and data: "map_of (so_unackedNums c) (so_cumReadNXT s + 1) = None"
  shows "if map_of (so_unackedNums s) (so_cumReadNXT c) = None
    then \<exists>c1 c2 c3 c4 s1 s2 s3 s4 e1 e2 e3 e4 x y.
      VClose ns nC c = Inr (Some (c1, e1, Some x)) \<and> so_state c1 = FIN_WAIT_1 \<and>
      ReceiverThread_step ns nS s (segmentInfo (sk_RemoteAddr (so_key c)) (finPacket ns c rbC wbC)) = Inr (Some (s1, e2)) \<and>
      so_state s1 = CLOSE_WAIT \<and>
      ReceiverThread_step ns nC c1 (segmentInfo (sk_LocalAddr (so_key c))
        (receiverAck ns s1 rbS (segmentInfo (sk_RemoteAddr (so_key c)) (finPacket ns c rbC wbC)))) = Inr (Some (c2, [ToFinChan x])) \<and>
      finAcked x x tC c2 = Some (tC, c3, True) \<and> so_state c3 = FIN_WAIT_2 \<and>
      VClose ns nS s1 = Inr (Some (s2, e3, Some y)) \<and> so_state s2 = LAST_ACK \<and>
      ReceiverThread_step ns nC c3 (segmentInfo (sk_LocalAddr (so_key c)) (finPacket ns s1 rbS wbS)) = Inr (Some (c4, DeleteTCBLater # e4)) \<and>
      so_state c4 = TIME_WAIT \<and>
      ReceiverThread_step ns nS s2 (segmentInfo (sk_RemoteAddr (so_key c))
        (receiverAck ns c4 rbC (segmentInfo (sk_LocalAddr (so_key c)) (finPacket ns s1 rbS wbS)))) = Inr (Some (s3, [ToFinChan y])) \<and>
      finAcked y y tS s3 = Some (deleteTCB tS (Normal s4), s4, True)
    else (\<exists>c1 e1 x. VClose ns nC c = Inr (Some (c1, e1, Some x)) \<and> so_state c1 = FIN_WAIT_1) \<and>
      (\<exists>s1 fin. fin = segmentInfo (sk_RemoteAddr (so_key c)) (finPacket ns c rbC wbC) \<and>
         ReceiverThread_step ns nS s fin = Inr (Some (s1, [ToAckChan fin])) \<and> so_state s1 = ESTABLISHED)"
proof (cases "map_of (so_unackedNums s) (so_cumReadNXT c)")
  case None
  show ?thesis
    unfolding if_P [OF None] using flags c s keys nums None data by (rule close_completes)
next
  case (Some k)
  let ?fin = "segmentInfo (sk_RemoteAddr (so_key c)) (finPacket ns c rbC wbC)"
  have "ti_Flag ?fin = FINACK ns" "ti_Payload ?fin = []" "ti_AckNum ?fin = so_cumReadNXT c"
    by (simp_all add: segmentInfo_def finPacket_def dataPacket_def)
  with fin_swallowed [OF flags, of ?fin s k nS] s(1) Some have
    "ReceiverThread_step ns nS s ?fin = Inr (Some (s\<lparr>so_ClientWindowSize := ti_WindowSize ?fin\<rparr>, [ToAckChan ?fin]))"
    by (simp add: quiet_def)
  moreover have "\<exists>c1 e1 x. VClose ns nC c = Inr (Some (c1, e1, Some x)) \<and> so_state c1 = FIN_WAIT_1"
    using VClose_quiet [OF c(1) _ c(3)] c(2) by auto
  ultimately show ?thesis using Some s(2) by simp
qed

definition ex_peer :: NormalSocket where
  "ex_peer = (acceptingSocket 1 (flipSocketKeyFields ex_key) (ex_data 6000 []))\<lparr>so_state := ESTABLISHED\<rparr>"

lemma ex_reaches:
  "reaches ns (lan_host 0x0a000001 0x0a000002) (Addr4 0x0a000002)" "reaches ns (lan_host 0x0a000002 0x0a000001) (Addr4 0x0a000001)"
  unfolding reaches_def using lan_host_sends by blast+

lemma ex_quiet:
  "quiet ex_sender newReadBuffer newWriteBuffer" "quiet ex_peer newReadBuffer newWriteBuffer"
  "so_state ex_sender = ESTABLISHED" "so_state ex_peer = ESTABLISHED"
  by (simp_all add: quiet_def ex_sender_def ex_peer_def connectedSocket_def acceptingSocket_def connectingSocket_def)

lemma ex_agree:
  "so_key ex_peer = flipSocketKeyFields (so_key ex_sender)"
  "so_cumReadNXT ex_peer = wb_dist newWriteBuffer + so_cumWriteUNA ex_sender"
  "so_cumReadNXT ex_sender = wb_dist newWriteBuffer + so_cumWriteUNA ex_peer"
  "so_unackedNums ex_sender = []" "so_unackedNums ex_peer = []"
  "sk_RemoteAddr (so_key ex_sender) = Addr4 0x0a000002" "sk_LocalAddr (so_key ex_sender) = Addr4 0x0a000001"
  by (simp_all add: ex_sender_def ex_peer_def connectedSocket_def acceptingSocket_def connectingSocket_def ex_data_def ex_key_def
      newWriteBuffer_def wb_dist_def WINDOW_SIZE_def)

theorem orderly_close_witness:
  "\<exists>c3 c4 e4 s1 s3 s4 y. so_state s1 = CLOSE_WAIT \<and> so_state c3 = FIN_WAIT_2 \<and>
     ReceiverThread_step ref_netstack (lan_host 0x0a000001 0x0a000002) c3
       (segmentInfo (Addr4 0x0a000001) (finPacket ref_netstack s1 newReadBuffer newWriteBuffer)) = Inr (Some (c4, DeleteTCBLater # e4)) \<and>
     so_state c4 = TIME_WAIT \<and> finAcked y y ex_stack s3 = Some (deleteTCB ex_stack (Normal s4), s4, True)"
proof -
  note cl = orderly_close [OF ref_netstack_flags ex_quiet(1,3) _ ex_quiet(2,4) _ ex_agree(1-3),
      of "lan_host 0x0a000001 0x0a000002" "lan_host 0x0a000002 0x0a000001" ex_stack ex_stack]
  show ?thesis
    using cl unfolding ex_agree(4-7) using ex_reaches by simp blast
qed

section \<open>Giving up\<close>

text \<open>
  Once the segment at the head of the window has been repeated nine times in a row, the next
  expiration closes the connection.
\<close>

lemma retrans_gives_up:
  assumes "sd_nodes sd = h # rest" "wn_expectedAck h \<noteq> 0" "wn_lastSent h = Some t0" "wn_packet h = Some p"
    and "so_ClientWindowSize sock \<noteq> 0" "so_readBuffer sock = Some rb" "so_writeBuffer sock = Some wb"
    and "of_int last_index = wn_index h" "cnt = 9"
  shows "\<exists>sock' sd' es k. retransThread_tick ns n fl now (last_index, cnt) sock sd = Inr (sock', sd', es, k, True)"
proof -
  have f: "so_ClientWindowSize (recomputeRTO fl (- 1) sock) = so_ClientWindowSize sock"
    "so_readBuffer (recomputeRTO fl (- 1) sock) = so_readBuffer sock" "so_writeBuffer (recomputeRTO fl (- 1) sock) = so_writeBuffer sock"
    by (simp_all add: recomputeRTO_def)
  show ?thesis
    using assms by (simp add: retransThread_tick_def Let_def f withBuffers_def retransmit_def)
qed

section \<open>What closing does not handle\<close>

text \<open>
  Bytes that arrived before the FIN and have not been read are lost: \<open>ReceiveFile\<close> looks at the
  state first, and reading is refused.
\<close>

lemma unread_lost:
  assumes "quiet sock rb wb" "so_state sock = CLOSE_WAIT" "reaches ns n (sk_RemoteAddr (so_key sock))"
  shows "(\<exists>sock' es. ReceiveFile_turn ns n ferr id sock = Inr (Some (sock', es, [], True))) \<and> VRead sock k b = Inr (sock, ReadClosed)"
proof -
  obtain sock' es x where "VClose ns n sock = Inr (Some (sock', es, x))"
    using VClose_quiet [OF assms(1) _ assms(3)] assms(2) by blast
  then show ?thesis using assms(1,2) by (simp add: ReceiveFile_turn_def VRead_def quiet_def)
qed

text \<open>A socket whose connection is not yet established cannot be closed: its buffers are nil.\<close>

lemma VClose_connecting: "VClose ns n (connectingSocket sid sk) = Inl NilPanic"
  by (simp add: VClose_def withBuffers_def connectingSocket_def)

end
