(* ===== verification/Node_Life.thy ===== *)
theory Node_Life
  imports Node_Packets
begin

text \<open>
  The life of a node: what \<open>Initialize\<close> makes of a configuration, and what stays true of the
  node through every datagram it receives and every run of the garbage collector, as an
  inductive step relation with reachability. \<open>periodicUpdates\<close>, \<open>HandleSend\<close> and the listings
  do not change the node.
\<close>

section \<open>Starting\<close>

lemma table_ok_update: "table_ok tab \<Longrightarrow> route_ok p i \<Longrightarrow> table_ok (AList.update p i tab)"
  by (auto simp: table_ok_def distinct_update dest!: in_set_update)

lemma table_ok_start: "table_ok (n_forwardingTable (startNode cfg))"
proof -
  have "table_ok (addStatic tab r)" if "table_ok tab" for tab r
    using that by (cases r) (auto simp: addStatic_def route_ok_def INFTY_def intro: table_ok_update)
  then have st: "table_ok (foldl addStatic tab xs)" if "table_ok tab" for tab xs
    using that by (induction xs arbitrary: tab) simp_all
  have "table_ok (addLocal tab i)" if "table_ok tab" for tab i
    using that by (auto simp: addLocal_def route_ok_def INFTY_def intro: table_ok_update)
  then have "table_ok (foldl addLocal tab xs)" if "table_ok tab" for tab xs
    using that by (induction xs arbitrary: tab) simp_all
  with st [of "[]"] show ?thesis by (simp add: startNode_def table_ok_def [of "[]"])
qed

lemma interfaces_start:
  "map_of (n_interfaces (startNode cfg)) name =
     map_option newInterface (find (\<lambda>c. ic_Name c = name) (rev (cfg_Interfaces cfg)))"
  by (simp add: startNode_def map_of_foldl_update split: option.split)

lemma neighbors_start:
  "map_of (n_neighborTable (startNode cfg)) a = find (\<lambda>n. nc_DestAddr n = a) (rev (cfg_Neighbors cfg))"
  by (simp add: startNode_def createNeighborTable_def map_of_foldl_update split: option.split)

lemma sendRequests_node:
  "sendRequests ns node as = Inr (node', es) \<Longrightarrow>
     node' = node\<lparr>n_ripNeighbors := n_ripNeighbors node @ as\<rparr>"
proof (induction as arbitrary: node node' es)
  case (Cons a as)
  then obtain fs where "sendRequests ns (node\<lparr>n_ripNeighbors := n_ripNeighbors node @ [a]\<rparr>) as = Inr (node', fs)"
    by (auto simp: Let_def bindr_eq_Inr)
  from Cons.IH [OF this] show ?case by simp
qed simp

definition handlers :: "(int \<times> HandlerFunc) list" where
  "handlers = [(0, Protocol0), (6, Protocol6), (200, Protocol200)]"

text \<open>The node of a configuration, with the forwarding table it has at some moment.\<close>

definition initialised :: "IPConfig \<Rightarrow> table \<Rightarrow> Node" where
  "initialised cfg tab = (startNode cfg)\<lparr>n_ripNeighbors := cfg_RipNeighbors cfg,
     n_IpAddr := ic_AssignedIP (getInterface (startNode cfg) ''if0''), n_handlerTable := handlers,
     n_forwardingTable := tab\<rparr>"

lemma Initialize_node:
  assumes "Initialize ns cfg = Inr (node, es)"
  shows "node = initialised cfg (n_forwardingTable (startNode cfg))"
  using assms
  by (auto simp: Initialize_def bindr_eq_Inr handlers_def startNode_def getInterface_def initialised_def
      dest!: sendRequests_node)

lemma initialised_simps [simp]:
  "n_forwardingTable (initialised cfg tab) = tab"
  "(initialised cfg tab)\<lparr>n_forwardingTable := tab'\<rparr> = initialised cfg tab'"
  "n_interfaces (initialised cfg tab) = n_interfaces (startNode cfg)"
  "n_handlerTable (initialised cfg tab) = handlers"
  "n_ripNeighbors (initialised cfg tab) = cfg_RipNeighbors cfg"
  "n_neighbors (initialised cfg tab) = cfg_Neighbors cfg"
  by (simp_all add: initialised_def startNode_def)

section \<open>Starting succeeds\<close>

text \<open>
  A configuration is consistent when all addresses are IPv4 and every neighbour is reached
  through a configured interface.
\<close>

definition consistent :: "IPConfig \<Rightarrow> bool" where
  "consistent cfg \<longleftrightarrow> config_ok cfg \<and> (\<forall>i \<in> set (cfg_Interfaces cfg). Is4 (ic_AssignedIP i)) \<and>
     (\<forall>n \<in> set (cfg_Neighbors cfg). Is4 (nc_DestAddr n) \<and> nc_InterfaceName n \<in> ic_Name ` set (cfg_Interfaces cfg))"

lemma consistent_neighbor:
  assumes "consistent cfg" "a \<in> set (cfg_RipNeighbors cfg)"
    and "n_neighborTable node = n_neighborTable (startNode cfg)" "n_interfaces node = n_interfaces (startNode cfg)"
  shows "Is4 a \<and> Is4 (ic_AssignedIP (getInterface node (nc_InterfaceName (getNeighbor node a))))"
proof -
  from assms(1,2) obtain n where n: "n \<in> set (cfg_Neighbors cfg)" "nc_DestAddr n = a" "Is4 a"
    by (auto simp: consistent_def config_ok_def)
  from find_rev_ex [of n _ "\<lambda>n. nc_DestAddr n = a", OF n(1,2)] obtain m
    where "find (\<lambda>n. nc_DestAddr n = a) (rev (cfg_Neighbors cfg)) = Some m" "m \<in> set (cfg_Neighbors cfg)" .
  then have m: "m \<in> set (cfg_Neighbors cfg)" "getNeighbor node a = m"
    by (simp_all add: getNeighbor_def assms(3) neighbors_start)
  with assms(1) obtain c where c: "c \<in> set (cfg_Interfaces cfg)" "ic_Name c = nc_InterfaceName m"
    unfolding consistent_def by force
  from find_rev_ex [of c _ "\<lambda>c. ic_Name c = nc_InterfaceName m", OF c] obtain c'
    where "find (\<lambda>c. ic_Name c = nc_InterfaceName m) (rev (cfg_Interfaces cfg)) = Some c'"
      "c' \<in> set (cfg_Interfaces cfg)" .
  then have "c' \<in> set (cfg_Interfaces cfg)" "getInterface node (nc_InterfaceName m) = newInterface c'"
    by (simp_all add: getInterface_def assms(4) interfaces_start)
  with assms(1) n(3) show ?thesis by (simp add: consistent_def m(2) newInterface_def)
qed

lemma sendRequests_defined:
  assumes "\<And>a. a \<in> set as \<Longrightarrow> Is4 a \<and> Is4 (ic_AssignedIP (getInterface node (nc_InterfaceName (getNeighbor node a))))"
  shows "\<exists>node' es. sendRequests ns node as = Inr (node', es) \<and> length es = length as"
  using assms
proof (induction as arbitrary: node)
  case (Cons a as)
  let ?node = "node\<lparr>n_ripNeighbors := n_ripNeighbors node @ [a]\<rparr>"
  have same: "getInterface ?node = getInterface node" "getNeighbor ?node = getNeighbor node"
    by (simp_all add: getInterface_def getNeighbor_def fun_eq_iff)
  from Cons.IH [of ?node] Cons.prems obtain node' es where "sendRequests ns ?node as = Inr (node', es)"
      "length es = length as" by (auto simp: same)
  with Cons.prems [of a] show ?case by (auto simp: Let_def same makePacket_eq elim!: Is4_cases)
qed simp

lemma Initialize_defined:
  assumes "consistent cfg"
  shows "\<exists>es. Initialize ns cfg = Inr (initialised cfg (n_forwardingTable (startNode cfg)), es) \<and>
    length es = length (cfg_RipNeighbors cfg)"
proof -
  obtain node es where "sendRequests ns (startNode cfg) (cfg_RipNeighbors cfg) = Inr (node, es)"
      "length es = length (cfg_RipNeighbors cfg)"
    using sendRequests_defined [OF consistent_neighbor [OF assms _ refl refl], of "cfg_RipNeighbors cfg" ns] by auto
  then obtain node where i: "Initialize ns cfg = Inr (node, es)" "length es = length (cfg_RipNeighbors cfg)"
    by (auto simp: Initialize_def)
  with Initialize_node [OF i(1)] show ?thesis by auto
qed

lemma rip_ready_initialised: "consistent cfg \<Longrightarrow> rip_ready (initialised cfg tab)"
  unfolding rip_ready_def using consistent_neighbor [of cfg _ "initialised cfg tab"]
  by (simp add: initialised_def)

text \<open>A router at 10.0.0.1/24 that exchanges routes with 10.0.0.2.\<close>

definition ex_cfg :: IPConfig where
  "ex_cfg = \<lparr>cfg_Interfaces = [\<lparr>ic_Name = ''if0'', ic_AssignedIP = Addr4 0x0a000001,
       ic_AssignedPrefix = Prefix (Addr4 0x0a000000) 24, ic_UDPAddr = \<lparr>ap_Addr = Addr4 0x7f000001, ap_Port = 5000\<rparr>\<rparr>],
     cfg_Neighbors = [\<lparr>nc_DestAddr = Addr4 0x0a000002, nc_UDPAddr = \<lparr>ap_Addr = Addr4 0x7f000001, ap_Port = 5001\<rparr>,
       nc_InterfaceName = ''if0''\<rparr>],
     cfg_OriginatingPrefixes = [], cfg_RoutingMode = RoutingTypeRIP, cfg_RipNeighbors = [Addr4 0x0a000002],
     cfg_StaticRoutes = []\<rparr>"

definition ex_node :: Node where
  "ex_node = initialised ex_cfg (n_forwardingTable (startNode ex_cfg))"

lemma ex_cfg_consistent: "consistent ex_cfg"
  by (simp add: consistent_def config_ok_def ex_cfg_def valid_prefix_def)

lemmas ex_node_simps = ex_node_def initialised_def startNode_def ex_cfg_def addLocal_def newInterface_def
  createNeighborTable_def handlers_def

lemma ex_node_checkDest: "checkDest ex_node (Addr4 0x0a000001)"
  by (simp add: checkDest_def ex_node_simps)

section \<open>Steps\<close>

inductive node_step :: "netstack \<Rightarrow> Node \<Rightarrow> Node \<Rightarrow> bool" for ns where
  receive: "interfaceRoutine_recv ns now node iface datagram = Inr (node', es) \<Longrightarrow> node_step ns node node'"
| collect: "garbageCollector_tick ns now node = Inr (node', es) \<Longrightarrow> node_step ns node node'"

inductive reachable :: "netstack \<Rightarrow> IPConfig \<Rightarrow> Node \<Rightarrow> bool" for ns cfg where
  start: "Initialize ns cfg = Inr (node, es) \<Longrightarrow> reachable ns cfg node"
| step: "reachable ns cfg node \<Longrightarrow> node_step ns node node' \<Longrightarrow> reachable ns cfg node'"

inductive_cases node_stepE: "node_step ns node node'"

lemma protocol200_frame:
  assumes "protocol200 ns now node message hdr = Inr (node', es)"
  shows "\<exists>tab. node' = node\<lparr>n_forwardingTable := tab\<rparr>"
proof -
  have "\<exists>tab. node = node\<lparr>n_forwardingTable := tab\<rparr>" by (rule exI [of _ "n_forwardingTable node"]) simp
  with assms show ?thesis
    by (auto simp: protocol200_def bindr_eq_Inr Let_def split: if_splits prod.splits)
qed

lemma callHandler_node:
  assumes "callHandler ns now node h message hdr = Inr (node', es)"
  shows "node' = node \<or> protocol200 ns now node message hdr = Inr (node', es)"
  using assms
  by (auto simp: callHandler_def bindr_eq_Inr split: option.splits HandlerFunc.splits)

lemma handlePackets_node:
  assumes "handlePackets ns now node buffer = Inr (node', es)"
  shows "node' = node \<or> (\<exists>message hdr. protocol200 ns now node message hdr = Inr (node', es))"
proof (cases "ParseHeader (Some (vis buffer))")
  case (Inr h)
  with assms have "node' = node \<or> (\<exists>handler message hdr. callHandler ns now node handler message hdr = Inr (node', es))"
    by (auto simp: handlePackets_def Let_def bindr_eq_Inr split: if_splits)
  then show ?thesis using callHandler_node by blast
qed (use assms in \<open>simp add: handlePackets_def\<close>)

lemma node_step_frame:
  assumes "node_step ns node node'"
  shows "\<exists>tab. node' = node\<lparr>n_forwardingTable := tab\<rparr>"
  using assms
proof (rule node_stepE)
  fix now iface datagram es
  assume "interfaceRoutine_recv ns now node iface datagram = Inr (node', es)"
  then have "node' = node \<or> (\<exists>message hdr. protocol200 ns now node message hdr = Inr (node', es))"
    by (auto simp: interfaceRoutine_recv_def split: if_splits dest: handlePackets_node)
  moreover have "\<exists>tab. node = node\<lparr>n_forwardingTable := tab\<rparr>"
    by (rule exI [of _ "n_forwardingTable node"]) simp
  ultimately show ?thesis using protocol200_frame by blast
next
  fix now es
  assume "garbageCollector_tick ns now node = Inr (node', es)"
  then show ?thesis by (auto simp: garbageCollector_tick_def bindr_eq_Inr Let_def split: if_splits)
qed

lemma node_step_table_ok:
  assumes "node_step ns node node'" "table_ok (n_forwardingTable node)"
  shows "table_ok (n_forwardingTable node')"
  using assms(1)
proof (rule node_stepE)
  fix now iface datagram es
  assume "interfaceRoutine_recv ns now node iface datagram = Inr (node', es)"
  then have "node' = node \<or> (\<exists>message hdr. protocol200 ns now node message hdr = Inr (node', es))"
    by (auto simp: interfaceRoutine_recv_def split: if_splits dest: handlePackets_node)
  with assms(2) show ?thesis using protocol200_table mergeEntries_table_ok by metis
next
  fix now es
  assume "garbageCollector_tick ns now node = Inr (node', es)"
  with assms(2) show ?thesis by (simp add: garbageCollector_table table_ok_filter)
qed

lemma ex_node_reachable: "reachable ref_netstack ex_cfg ex_node"
  using Initialize_defined [OF ex_cfg_consistent, of ref_netstack]
  by (auto simp: ex_node_def intro: reachable.start)

lemma reachable_initialised:
  assumes "reachable ns cfg node"
  shows "table_ok (n_forwardingTable node) \<and> node = initialised cfg (n_forwardingTable node)"
  using assms
proof induction
  case (start node es)
  from Initialize_node [OF start] table_ok_start [of cfg] show ?case by simp
next
  case (step node node')
  from node_step_frame [OF step.hyps(2)] obtain tab where tab: "node' = node\<lparr>n_forwardingTable := tab\<rparr>" by blast
  then have "node' = initialised cfg tab" using step.IH initialised_simps(2) by metis
  with node_step_table_ok [OF step.hyps(2)] step.IH show ?case by simp
qed

text \<open>
  C15. Every node that a configuration can lead to, through any sequence of datagrams (well
  formed or not) and collections: its table is well-formed, and its interfaces, neighbours,
  RIP neighbours, address and handlers are those it was started with.
\<close>

theorem reachable_invariant:
  assumes "reachable ns cfg node"
  shows "table_ok (n_forwardingTable node) \<and> node = initialised cfg (n_forwardingTable node)"
  using assms by (rule reachable_initialised)

theorem reachable_invariant_witness:
  "table_ok (n_forwardingTable ex_node) \<and> ex_node = initialised ex_cfg (n_forwardingTable ex_node)"
  by (rule reachable_invariant [OF ex_node_reachable])

section \<open>Interfaces cannot be toggled\<close>

lemma ToggleInterface_result:
  assumes "reachable ns cfg node"
  shows "ToggleInterface node name b =
    (if name \<in> fst ` set (n_interfaces node) then Inl NilPanic
     else Inr (Inl (name @ '' not a valid interface'')))"
proof (cases "map_of (n_interfaces node) name")
  case None
  then have "name \<notin> fst ` set (n_interfaces node)" by (simp add: map_of_eq_None_iff)
  with None show ?thesis by (simp add: ToggleInterface_def)
next
  case (Some i)
  have "n_interfaces node = n_interfaces (startNode cfg)"
    using reachable_initialised [OF assms] initialised_simps(3) by metis
  with Some have "if_enableMutex i = None" by (auto simp: interfaces_start newInterface_def)
  with Some show ?thesis by (auto simp: ToggleInterface_def dest: map_of_SomeD intro: rev_image_eqI)
qed

text \<open>
  C29. On every node that a configuration leads to, \<open>ToggleInterface\<close> of an existing interface
  dereferences a nil mutex, whether it is to go up or down; only unknown names return, with an
  error. (The mutex is allocated in the copy that \<open>interfaceRoutine\<close> works on.)
\<close>

theorem ToggleInterface_panics:
  assumes "reachable ns cfg node"
  shows "ToggleInterface node name b =
    (if name \<in> fst ` set (n_interfaces node) then Inl NilPanic
     else Inr (Inl (name @ '' not a valid interface'')))"
  using assms by (rule ToggleInterface_result)

theorem ToggleInterface_panics_witness: "ToggleInterface ex_node ''if0'' False = Inl NilPanic"
  by (simp add: ToggleInterface_panics [OF ex_node_reachable]) (simp add: ex_node_simps)

section \<open>Which packets can stop a node\<close>

text \<open>
  C30. Traffic in transit is harmless: a datagram that is not for this node, whatever bytes it
  consists of, is dropped or forwarded, and never stops the node or changes its state.
\<close>

theorem transit_never_panics:
  assumes "\<And>h. ParseHeader (Some (vis buffer)) = Inr h \<Longrightarrow> \<not> checkDest node (h_Dst h)"
  shows "\<exists>es. handlePackets ns now node buffer = Inr (node, es)"
proof (cases "ParseHeader (Some (vis buffer))")
  case (Inr h)
  from ParseHeader_addrs(1) [OF Inr] obtain s d where sd: "h_Src h = Addr4 s" "h_Dst h = Addr4 d" by blast
  have fwd: "forwardOn ns node hdr data \<noteq> Inl f"
    if "h_Src hdr = Addr4 s" "h_Dst hdr = Addr4 d" for hdr data f
    using FindNext_route [of node "Addr4 d"] assms [OF Inr] sd that
    by (auto simp: forwardOn_def makePacket_eq Let_def)
  from Inr assms [OF Inr] ParseHeader_addrs(5,6) [OF Inr] show ?thesis
    by (auto simp: fwd sd handlePackets_def Let_def slice_to_def slice_range_def slice_from_def slice_cap_def slice_len_def bindr_def
        split: sum.splits)
qed (simp add: handlePackets_def)

definition stray :: bytes where
  "stray = [0x45, 9, 0, 20, 0, 0, 0, 0, 16, 77, 0xde, 0xad] @ put32 0x0a000002 @ put32 0x08080808"

theorem transit_never_panics_witness:
  "\<exists>es. handlePackets ref_netstack 0 ex_node (slice_of stray) = Inr (ex_node, es)"
proof (rule transit_never_panics)
  fix h
  assume "ParseHeader (Some (vis (slice_of stray))) = Inr h"
  then have "h_Dst h = Addr4 0x08080808"
    by (auto simp: slice_of_def stray_def header_unfold put32_def get32_def)
  then show "\<not> checkDest ex_node (h_Dst h)" by (simp add: checkDest_def ex_node_simps)
qed

text \<open>
  A packet for a node with a protocol number other than 0, 6 and 200 stops it: the
  handler table yields a nil function, which is called.
\<close>

theorem unknown_protocol_panics:
  assumes "netstack_checksum ns" "reachable ns cfg node" "checkDest node (Addr4 d)"
    and "0 \<le> proto" "proto < 256" "proto \<notin> {0, 6, 200}" "1 \<le> ttl" "ttl < 256" "20 + length data < 65536"
    and "makePacket ns (Addr4 s) (Addr4 d) proto ttl data = Inr pkt"
    and "packet_checksum ns s d proto ttl (length data) \<noteq> 0"
  shows "handlePackets ns now node \<lparr>vis = pkt, spare = sp\<rparr> = Inl NilPanic"
proof -
  have "n_handlerTable node = handlers"
    using reachable_initialised [OF assms(2)] initialised_simps(4) by metis
  with assms(6) have "map_of (n_handlerTable node) proto = None" by (simp add: handlers_def)
  moreover have "pkt = header20 s d proto ttl (length data) (packet_checksum ns s d proto ttl (length data)) @ data"
    using assms(10) by (simp add: makePacket_eq)
  ultimately show ?thesis
    using handlePackets_header20 [OF assms(1,4,5,7,8,9) refl assms(11) refl, of now node sp] assms(3)
    by (simp add: callHandler_def)
qed

theorem unknown_protocol_panics_witness:
  "\<exists>pkt. makePacket ref_netstack (Addr4 0x0a000002) (Addr4 0x0a000001) 17 16 [] = Inr pkt \<and>
     handlePackets ref_netstack 0 ex_node (slice_of pkt) = Inl NilPanic"
proof -
  obtain pkt where pkt: "makePacket ref_netstack (Addr4 0x0a000002) (Addr4 0x0a000001) 17 16 [] = Inr pkt"
    by (simp add: makePacket_eq)
  have "packet_checksum ref_netstack 0x0a000002 0x0a000001 17 16 0 \<noteq> 0" by (simp add: checksum_eval)
  with pkt show ?thesis
    using unknown_protocol_panics [OF ref_netstack_checksum ex_node_reachable ex_node_checkDest _ _ _ _ _ _ pkt, of 0 "[]"]
    by (auto simp: slice_of_def)
qed

text \<open>
  A header that claims to be zero words long is not protected by its checksum: whatever
  its checksum field holds, a node it is addressed to hands the datagram, header included, to
  the protocol's handler.
\<close>

theorem empty_header_bypasses_checksum:
  assumes "netstack_checksum ns" "20 \<le> length b" "b ! 0 AND 15 = 0" "b ! 8 \<noteq> 0"
    and "ParseHeader (Some b) = Inr h" "checkDest node (h_Dst h)"
  shows "handlePackets ns now node \<lparr>vis = b, spare = sp\<rparr> =
    callHandler ns now node (map_of (n_handlerTable node) (h_Protocol h)) \<lparr>vis = b, spare = sp\<rparr>
      (h\<lparr>h_TTL := h_TTL h - 1\<rparr>)"
proof -
  have len: "h_Len h = 0" and ck: "h_Checksum h = uint (word_of_int (h_Checksum h) :: u16)"
    using assms(2,3,5) by (auto simp: header_unfold split: if_splits)
  have "uint (b ! 8) \<noteq> 0" using assms(4) by (simp add: uint_0_iff)
  then have ttl: "\<not> h_TTL h - 1 < 0"
    using ParseHeader_addrs(3) [OF assms(5)] uint_ge_0 [of "b ! 8"] by linarith
  have "oc_fold n = n" if "n < 65536" for n
    using that by (auto simp: oc_fold_def)
  then have "ns_Checksum ns [] c = c" for c
    using assms(1) unat_u16_less [of c] by (simp add: netstack_checksum_def word_unat_eq_iff unat_rfc1071)
  with len ttl ck assms(5,6) show ?thesis
    by (simp add: handlePackets_def ValidateChecksum_def slice_to_def slice_range_def slice_from_def slice_cap_def
        slice_len_def Let_def)
qed

definition forged :: bytes where
  "forged = [0x40, 0, 0, 20, 0, 0, 0, 0, 16, 0, 0xde, 0xad] @ put32 0x0a000002 @ put32 0x0a000001"

theorem empty_header_bypasses_checksum_witness:
  "\<exists>hdr. handlePackets ref_netstack 0 ex_node (slice_of forged) = Inr (ex_node, protocol0 forged hdr)"
proof -
  obtain h where h: "ParseHeader (Some forged) = Inr h" "h_Dst h = Addr4 0x0a000001" "h_Protocol h = 0"
    by (simp add: forged_def header_unfold put32_def get32_def)
  have "map_of (n_handlerTable ex_node) 0 = Some Protocol0" by (simp add: ex_node_simps)
  with h show ?thesis
    using empty_header_bypasses_checksum [OF ref_netstack_checksum _ _ _ h(1), of ex_node 0 "[]"] ex_node_checkDest
    by (auto simp: callHandler_def slice_of_def forged_def put32_def)
qed

text \<open>
  A RIP request from an address that is no neighbour stops the node: the answer is built
  with the zero address as source, which \<open>MustParseAddr\<close> rejects.
\<close>

theorem stranger_request_panics:
  assumes "ExtractRIP message = Inr rp" "rp_Command rp = 1" "ipv4_table (n_forwardingTable node)"
    and "map_of (n_neighborTable node) (h_Src hdr) = None" "map_of (n_interfaces node) [] = None"
  shows "protocol200 ns now node message hdr = Inl ParsePanic"
proof -
  from ripEntries_defined [OF assms(3)] obtain es where "ripEntries (h_Src hdr) (n_forwardingTable node) = Inr es" by blast
  then have "sendRIP ns node (h_Src hdr) (n_forwardingTable node) = Inl ParsePanic"
    using assms(4,5)
    by (simp add: sendRIP_def getNeighbor_def zeroNeighbor_def getInterface_def zeroInterface_def makePacket_def
        MustParseAddr_String Let_def del: addr_String.simps)
  with assms(1,2) show ?thesis by (simp add: protocol200_def)
qed

theorem stranger_request_panics_witness:
  "protocol200 ref_netstack 0 ex_node (slice_of [0, 1, 0, 0])
     (makeHeader (Addr4 0x0a000007) (Addr4 0x0a000001) 200 15 4) = Inl ParsePanic"
proof (rule stranger_request_panics)
  show "ExtractRIP (slice_of [0, 1, 0, 0]) = Inr \<lparr>rp_Command = 1, rp_Num_entries = 0, rp_Entries = []\<rparr>"
    by (simp add: ExtractRIP_eq slice_of_def slice_cap_def get16_def)
  show "ipv4_table (n_forwardingTable ex_node)"
    by (simp add: ipv4_table_def ipv4_prefix_def ex_node_simps)
qed (simp_all add: ex_node_simps makeHeader_def)

section \<open>Routes of cost zero\<close>

lemma dv_step_zero:
  assumes "fi_cost i = 0" "fi_next i \<noteq> hop" "0 \<le> c"
  shows "dv_step now hop p c (Some i) = Some i"
  using assms by (auto simp: dv_step_def)

lemma mergeEntries_zero:
  assumes "map_of tab p = Some i" "fi_cost i = 0" "fi_next i \<noteq> hop"
  shows "map_of (fst (mergeEntries now hop es tab)) p = Some i"
proof -
  have "fold (\<lambda>e. dv_step now hop p (entryCost e)) xs (Some i) = Some i" for xs
    by (induction xs) (simp_all add: dv_step_zero assms(2,3) entryCost_bounds)
  then show ?thesis by (simp add: lookup_mergeEntries assms(1))
qed

text \<open>
  C31. Local and static routes, which have cost zero, survive every RIP message, well formed
  or not, from every sender but their own next hop, and every run of the collector.
\<close>

theorem direct_routes_stable:
  assumes "table_ok (n_forwardingTable node)" "map_of (n_forwardingTable node) p = Some i"
    and "fi_cost i = 0" "fi_route_type i \<noteq> ''R''"
    and "protocol200 ns now node message hdr = Inr (node', es) \<and> h_Src hdr \<noteq> fi_next i \<or>
      garbageCollector_tick ns now node = Inr (node', es)"
  shows "map_of (n_forwardingTable node') p = Some i"
  using assms(5)
proof
  assume a: "protocol200 ns now node message hdr = Inr (node', es) \<and> h_Src hdr \<noteq> fi_next i"
  then show ?thesis
    using protocol200_table [of ns now node message hdr node' es] mergeEntries_zero [OF assms(2,3), of "h_Src hdr" now]
      assms(2) by auto
next
  assume "garbageCollector_tick ns now node = Inr (node', es)"
  moreover have "distinct (map fst (n_forwardingTable node))" using assms(1) by (simp add: table_ok_def)
  ultimately show ?thesis
    using map_of_filter_distinct [of "n_forwardingTable node" "\<lambda>i. \<not> expired now i" p] assms(2,4)
    by (simp add: garbageCollector_table expired_def)
qed

text \<open>A neighbour claims a route to the node's own subnet at cost zero.\<close>

definition ex_claim :: bytes where
  "ex_claim = [0, 2, 0, 1, 0, 0, 0, 0, 10, 0, 0, 0, 255, 255, 255, 0]"

theorem direct_routes_stable_witness:
  "\<exists>node' es. protocol200 ref_netstack 5 ex_node (slice_of ex_claim) (makeHeader (Addr4 0x0a000002) (Addr4 0x0a000001) 200 15 16) = Inr (node', es) \<and>
     map_of (n_forwardingTable node') (Prefix (Addr4 0x0a000000) 24) =
       map_of (n_forwardingTable ex_node) (Prefix (Addr4 0x0a000000) 24)"
proof -
  let ?hdr = "makeHeader (Addr4 0x0a000002) (Addr4 0x0a000001) 200 15 16"
  have x: "ExtractRIP (slice_of ex_claim) =
      Inr \<lparr>rp_Command = 2, rp_Num_entries = 1, rp_Entries = [\<lparr>ru_Cost = 0, ru_Address = 0x0a000000, ru_Mask = 0xffffff00\<rparr>]\<rparr>"
    by (simp add: ExtractRIP_eq slice_of_def slice_cap_def get16_def ex_claim_def)
      (simp add: slice_u32_def slice_range_def slice_cap_def get32_def)
  obtain i where i: "map_of (n_forwardingTable ex_node) (Prefix (Addr4 0x0a000000) 24) = Some i"
      "fi_cost i = 0" "fi_route_type i \<noteq> ''R''" "fi_next i = Addr4 0x0a000001"
    by (simp add: ex_node_simps)
  have ok: "table_ok (n_forwardingTable ex_node)" using reachable_initialised [OF ex_node_reachable] by blast
  have "rip_ready ex_node" unfolding ex_node_def by (rule rip_ready_initialised [OF ex_cfg_consistent])
  from protocol200_response [OF x _ ok this, of ref_netstack 5 ?hdr] obtain node' es where
    m: "protocol200 ref_netstack 5 ex_node (slice_of ex_claim) ?hdr = Inr (node', es)" by auto
  have "h_Src ?hdr \<noteq> fi_next i" by (simp add: i(4) makeHeader_def)
  with direct_routes_stable [OF ok i(1-3) disjI1, OF conjI, OF m] i(1) m show ?thesis by auto
qed

text \<open>
  From its own next hop a static route is not safe: an announcement of its prefix at any cost
  counts as dearer than zero and deletes it.
\<close>

lemma static_route_lost:
  assumes "map_of tab p = Some i" "fi_cost i = 0" "entryPrefix e = Some p" "0 < entryCost e"
  shows "map_of (fst (mergeEntry now (fi_next i) e (tab, trig))) p = None"
  using assms by (simp add: lookup_mergeEntry at_prefix_def dv_step_def)

text \<open>
  C32. A node starts from every consistent configuration: \<open>Initialize\<close> returns a well-formed
  node that can announce routes to all its RIP neighbours, after one request to each of them.
\<close>

theorem Initialize_succeeds:
  assumes "consistent cfg"
  shows "\<exists>node es. Initialize ns cfg = Inr (node, es) \<and> length es = length (cfg_RipNeighbors cfg) \<and>
    rip_ready node \<and> table_ok (n_forwardingTable node)"
  using Initialize_defined [OF assms, of ns] rip_ready_initialised [OF assms] table_ok_start [of cfg] by fastforce

theorem Initialize_succeeds_witness:
  "\<exists>node es. Initialize ref_netstack ex_cfg = Inr (node, es) \<and> length es = length (cfg_RipNeighbors ex_cfg) \<and>
    rip_ready node \<and> table_ok (n_forwardingTable node)"
  by (rule Initialize_succeeds [OF ex_cfg_consistent])

end
