(* ===== verification/Repl.thy ===== *)
theory Repl
  imports Tcp_Close Node_Life
begin

text \<open>
  \<open>pkg/repl/repl.go\<close> and the entry points \<open>cmd/vhost\<close> and \<open>cmd/vrouter\<close>: the commands of the
  terminal on top of the node and the TCP stack. Input is ASCII; what the commands wait for or
  read from files is part of the input. Goroutines that a command starts are effects. A router
  has no TCP stack: the pointer is nil.
\<close>

section \<open>Input\<close>

definition to_lower :: "char \<Rightarrow> char" where
  "to_lower c = (let k = of_char c :: nat in if 65 \<le> k \<and> k \<le> 90 then char_of (k + 32) else c)"

definition cleanInput :: "string \<Rightarrow> string" where
  "cleanInput text = map to_lower (rev (dropWhile is_space (rev (dropWhile is_space text))))"

text \<open>
  \<open>strconv.ParseUint(s, 10, 16)\<close> with the value it returns besides an error: zero for a syntax
  error, the largest number when the digits read so far exceed it.
\<close>

fun parse16_loop :: "nat \<Rightarrow> string \<Rightarrow> nat \<times> bool" where
  "parse16_loop acc [] = (acc, True)"
| "parse16_loop acc (c # cs) =
     (if \<not> is_digit c then (0, False)
      else if 65535 < 10 * acc + digit_val c then (65535, False)
      else parse16_loop (10 * acc + digit_val c) cs)"

definition ParseUint16 :: "string \<Rightarrow> u16 \<times> bool" where
  "ParseUint16 s = (if s = [] then (0, False) else let (k, ok) = parse16_loop 0 s in (of_nat k, ok))"

definition bytes_of_string :: "string \<Rightarrow> bytes" where
  "bytes_of_string s = map (\<lambda>c. of_nat (of_char c)) s"

section \<open>Commands\<close>

record repl_input =
  ri_draws :: "nat list"
  ri_events :: "event list"
  ri_pause :: "(NormalSocket \<Rightarrow> NormalSocket) \<times> (NormalSocket \<Rightarrow> NormalSocket)"
  ri_worlds :: "(NormalSocket \<Rightarrow> NormalSocket) list"
  ri_files :: "string \<Rightarrow> bytes option option"  \<comment> \<open>\<open>None\<close>: it does not open; \<open>Some None\<close>: reading fails\<close>
  ri_openError :: string

datatype repl_effect = Out tcp_effect | SpawnAccept u16 | SpawnThreads SocketTableKey | SpawnAwaitFin SocketTableKey u32
  | SpawnReceive string ListenSocket

type_synonym repl_state = "Node \<times> TCPStack option"

type_synonym repl_result = "(repl_state \<times> repl_effect list) option res"

definition say :: "string \<Rightarrow> repl_effect" where
  "say s = Out (Ip (Print s))"

definition withStack :: "TCPStack option \<Rightarrow> (TCPStack \<Rightarrow> 'a res) \<Rightarrow> 'a res" where
  "withStack t f = (case t of None \<Rightarrow> Inl NilPanic | Some t' \<Rightarrow> f t')"

definition setSocket :: "TCPStack \<Rightarrow> NormalSocket \<Rightarrow> TCPStack" where
  "setSocket t sock = t\<lparr>ts_SocketTable := AList.update (so_key sock) (Normal sock) (ts_SocketTable t)\<rparr>"

definition toggle :: "Node \<Rightarrow> TCPStack option \<Rightarrow> string \<Rightarrow> bool \<Rightarrow> repl_result" where
  "toggle n t name b = bindr (ToggleInterface n name b) (\<lambda>r.
     case r of Inl e \<Rightarrow> Inr (Some ((n, t), [say ''Invalid interface''])) | Inr n' \<Rightarrow> Inr (Some ((n', t), [])))"

definition sendTest :: "netstack \<Rightarrow> Node \<Rightarrow> TCPStack option \<Rightarrow> string \<Rightarrow> string list \<Rightarrow> repl_result" where
  "sendTest ns n t vip message =
     bindr (MustParseAddr vip) (\<lambda>addr. bindr (FindNext n addr) (\<lambda>(_, _, found).
       if \<not> found then Inr (Some ((n, t), [say ''Error: No match in forwarding table.'']))
       else bindr (HandleSend ns n addr (bytes_of_string (join_strings '' '' message)) 0) (\<lambda>es.
         Inr (Some ((n, t), map (\<lambda>e. Out (Ip e)) es)))))"

definition connect :: "netstack \<Rightarrow> repl_input \<Rightarrow> Node \<Rightarrow> TCPStack option \<Rightarrow> string \<Rightarrow> string \<Rightarrow> repl_result" where
  "connect ns inp n t vip ps =
     (case ParseUint16 ps of (port, ok) \<Rightarrow>
        if \<not> ok then Inr (Some ((n, t), [say ''Could not parse port as int'']))
        else bindr (MustParseAddr vip) (\<lambda>addr. withStack t (\<lambda>t0.
          bindo (VConnect ns n t0 addr port (ri_draws inp) (ri_events inp)) (\<lambda>(t1, es, c).
            let fs = map (\<lambda>e. Out (Ip e)) es
            in case c of
                 Pending \<Rightarrow> Inr None
               | CouldNotConnect \<Rightarrow> Inr (Some ((n, Some t1), fs @ [say ''Error: could not connect'']))
               | Connected sock \<Rightarrow> Inr (Some ((n, Some t1), fs @ [SpawnThreads (so_key sock)]))))))"

text \<open>The socket with the identifier a command names.\<close>

definition withSocket ::
  "Node \<Rightarrow> TCPStack option \<Rightarrow> string \<Rightarrow> string \<Rightarrow> (TCPStack \<Rightarrow> Socket \<Rightarrow> repl_result) \<Rightarrow> repl_result" where
  "withSocket n t complaint s f =
     (case ParseUint16 s of (sid, ok) \<Rightarrow>
        if \<not> ok then Inr (Some ((n, t), [say complaint]))
        else withStack t (\<lambda>t0.
          case lookupSID t0 sid of None \<Rightarrow> Inr (Some ((n, t), [say ''Could not find socket''])) | Some sock \<Rightarrow> f t0 sock))"

definition writeTo :: "repl_input \<Rightarrow> Node \<Rightarrow> string list \<Rightarrow> TCPStack \<Rightarrow> Socket \<Rightarrow> repl_result" where
  "writeTo inp n message t socket =
     (case socket of
        Listen _ \<Rightarrow> Inl AssertPanic
      | Normal sock \<Rightarrow>
          bindo (VWrite (ri_worlds inp) (bytes_of_string (join_strings '' '' message)) sock) (\<lambda>w.
            case w of
              WriteClosed \<Rightarrow> Inr (Some ((n, Some t), []))
            | Written sock' _ \<Rightarrow> Inr (Some ((n, Some (setSocket t sock')), []))))"

definition readFrom :: "Node \<Rightarrow> u16 \<Rightarrow> TCPStack \<Rightarrow> Socket \<Rightarrow> repl_result" where
  "readFrom n num t socket =
     (case socket of
        Listen _ \<Rightarrow> Inl AssertPanic
      | Normal sock \<Rightarrow>
          bindr (VRead sock num False) (\<lambda>(sock', r).
            case r of
              ReadBlocked \<Rightarrow> Inr None
            | ReadBytes ys \<Rightarrow> Inr (Some ((n, Some (setSocket t sock')),
                [say (''Read '' @ show_nat (length ys) @ '' bytes: '' @ string_of_bytes ys)]))
            | _ \<Rightarrow> Inr (Some ((n, Some t), []))))"

definition closeSocket :: "netstack \<Rightarrow> Node \<Rightarrow> TCPStack \<Rightarrow> Socket \<Rightarrow> repl_result" where
  "closeSocket ns n t socket =
     (case socket of
        Listen l \<Rightarrow> Inr (Some ((n, Some (VClose_listen t l)), []))
      | Normal sock \<Rightarrow>
          bindo (VClose ns n sock) (\<lambda>(sock', es, awaited).
            Inr (Some ((n, Some (setSocket t sock')), map Out es @
              (case awaited of None \<Rightarrow> [] | Some x \<Rightarrow> [SpawnAwaitFin (so_key sock') x])))))"

definition sendFileTo :: "netstack \<Rightarrow> repl_input \<Rightarrow> Node \<Rightarrow> TCPStack option \<Rightarrow> string \<Rightarrow> string \<Rightarrow> string \<Rightarrow> repl_result" where
  "sendFileTo ns inp n t name vip ps =
     (case ri_files inp name of
        None \<Rightarrow> Inr (Some ((n, t), [say (ri_openError inp)]))
      | Some content \<Rightarrow>
          (case ParseUint16 ps of (port, ok) \<Rightarrow>
             if \<not> ok then Inr (Some ((n, t), [say ''Could not parse port as int'']))
             else bindr (MustParseAddr vip) (\<lambda>addr.
               if content = None then Inr (Some ((n, t), [say (ri_openError inp)]))
               else withStack t (\<lambda>t0.
                 bindo (SendFile ns n t0 content addr port (ri_draws inp) (ri_events inp) (ri_pause inp) (ri_worlds inp)) (\<lambda>(t1, es, r).
                   Inr (Some ((n, Some t1), map Out es @
                     (case r of
                        FileFailed \<Rightarrow> [say (ri_openError inp)]
                      | NotConnected \<Rightarrow> [say ''could not connect'']
                      | SocketClosed sk \<Rightarrow> [SpawnThreads sk, say ''sock closed'']
                      | Transferred sk None \<Rightarrow> [SpawnThreads sk, say ''current socket state is invalid'']
                      | Transferred sk (Some x) \<Rightarrow> [SpawnThreads sk, SpawnAwaitFin sk x]))))))))"

definition receiveFileFrom :: "Node \<Rightarrow> TCPStack option \<Rightarrow> string \<Rightarrow> string \<Rightarrow> repl_result" where
  "receiveFileFrom n t name ps =
     (case ParseUint16 ps of (port, ok) \<Rightarrow>
        if \<not> ok then Inr (Some ((n, t), [say ''Could not parse port as int'']))
        else withStack t (\<lambda>t0.
          case VListen t0 port of
            Inl e \<Rightarrow> Inr (Some ((n, t), []))
          | Inr (t1, lsock) \<Rightarrow> Inr (Some ((n, Some t1), [SpawnReceive name lsock]))))"

text \<open>The switch over the first word of a line.\<close>

definition REPL_command :: "netstack \<Rightarrow> repl_input \<Rightarrow> repl_state \<Rightarrow> string list \<Rightarrow> repl_result" where
  "REPL_command ns inp = (\<lambda>(n, t) tokens.
     let hint = (\<lambda>s. Inr (Some ((n, t), [say s]))); cmd = tokens ! 0; args = tl tokens
     in if cmd = ''li'' then Inr (Some ((n, t), map say (PrintInterfaces n)))
        else if cmd = ''ln'' then Inr (Some ((n, t), map say (PrintNeighbors n)))
        else if cmd = ''lr'' then Inr (Some ((n, t), map say (PrintRoutes n)))
        else if cmd = ''down'' then (if length tokens \<noteq> 2 then hint ''down usage: down <ifname>'' else toggle n t (args ! 0) False)
        else if cmd = ''up'' then (if length tokens \<noteq> 2 then hint ''up usage: up <ifname>'' else toggle n t (args ! 0) True)
        else if cmd = ''send'' then
          (if length tokens < 3 then hint ''send usage: send <vip> <message ...>'' else sendTest ns n t (args ! 0) (drop 1 args))
        else if cmd = ''a'' then
          (if length tokens \<noteq> 2 then hint ''a usage: a <port>''
           else case ParseUint16 (args ! 0) of (port, ok) \<Rightarrow>
             Inr (Some ((n, t), (if ok then [] else [say ''Could not parse port as int'']) @ [SpawnAccept port])))
        else if cmd = ''c'' then (if length tokens \<noteq> 3 then hint ''c usage: c <vip> <port>'' else connect ns inp n t (args ! 0) (args ! 1))
        else if cmd = ''ls'' then withStack t (\<lambda>t0. Inr (Some ((n, t), map say (PrintTable t0))))
        else if cmd = ''s'' then
          (if length tokens < 3 then hint ''s usage: s <socketID> <bytes>''
           else withSocket n t ''could not parse socket ID as int'' (args ! 0) (writeTo inp n (drop 1 args)))
        else if cmd = ''r'' then
          (if length tokens \<noteq> 3 then hint ''r usage: r <socket ID> <numbytes>''
           else case (ParseUint16 (args ! 0), ParseUint16 (args ! 1)) of ((_, ok), (num, ok')) \<Rightarrow>
             if ok \<and> \<not> ok' then hint ''Could not parse numbytes as int''
             else withSocket n t ''Could not parse socket ID as int'' (args ! 0) (readFrom n num))
        else if cmd = ''cl'' then
          (if length tokens < 2 then hint ''cl usage: cl <socketID>''
           else withSocket n t ''Could not parse socket ID as int'' (args ! 0) (closeSocket ns n))
        else if cmd = ''sf'' then
          (if length tokens < 4 then hint ''sf usage: sf <filename> <vip> <port>''
           else sendFileTo ns inp n t (args ! 0) (args ! 1) (args ! 2))
        else if cmd = ''rf'' then
          (if length tokens < 3 then hint ''rf usage: rf <filename> <port>'' else receiveFileFrom n t (args ! 0) (args ! 1))
        else Inr (Some ((n, t), [])))"

definition REPL_line :: "netstack \<Rightarrow> repl_input \<Rightarrow> repl_state \<Rightarrow> string \<Rightarrow> repl_result" where
  "REPL_line ns inp st text = bindo (REPL_command ns inp st (split_spaces (cleanInput text))) (\<lambda>(st', es).
     Inr (Some (st', es @ [say ''> ''])))"

fun REPL :: "netstack \<Rightarrow> repl_state \<Rightarrow> (repl_input \<times> string) list \<Rightarrow> repl_result" where
  "REPL ns st [] = Inr (Some (st, []))"
| "REPL ns st ((inp, text) # lines) = bindo (REPL_line ns inp st text) (\<lambda>(st', es).
     bindo (REPL ns st' lines) (\<lambda>(st'', fs). Inr (Some (st'', es @ fs))))"

text \<open>
  The goroutine of the command \<open>a\<close>: it listens, and every connection it accepts gets its threads;
  each list holds the segments one call of \<open>VAccept\<close> sees.
\<close>

fun accept_loop :: "netstack \<Rightarrow> Node \<Rightarrow> TCPStack \<Rightarrow> ListenSocket \<Rightarrow> TCPInfo list list \<Rightarrow> (TCPStack \<times> repl_effect list) res" where
  "accept_loop ns n t lsock [] = Inr (t, [])"
| "accept_loop ns n t lsock (arrivals # rest) =
     bindr (VAccept ns n t lsock arrivals) (\<lambda>(t1, es, c).
       case c of
         Connected sock \<Rightarrow> bindr (accept_loop ns n t1 lsock rest) (\<lambda>(t2, fs).
           Inr (t2, map (\<lambda>e. Out (Ip e)) es @ SpawnThreads (so_key sock) # fs))
       | _ \<Rightarrow> Inr (t1, map (\<lambda>e. Out (Ip e)) es))"

definition listenAndAccept :: "netstack \<Rightarrow> Node \<Rightarrow> TCPStack option \<Rightarrow> u16 \<Rightarrow> TCPInfo list list \<Rightarrow> (TCPStack \<times> repl_effect list) res" where
  "listenAndAccept ns n t port arrivals = withStack t (\<lambda>t0.
     case VListen t0 port of Inl e \<Rightarrow> Inr (t0, []) | Inr (t1, lsock) \<Rightarrow> accept_loop ns n t1 lsock arrivals)"

section \<open>Entry points\<close>

text \<open>The flag, the lines of the file it names (\<open>None\<close> if it does not open), the terminal.\<close>

definition startUp :: "(Node \<Rightarrow> TCPStack option) \<Rightarrow> netstack \<Rightarrow> string \<Rightarrow> string list option \<Rightarrow> (repl_input \<times> string) list \<Rightarrow> (repl_state option \<times> repl_effect list) option res" where
  "startUp stack ns lnxPath file lines =
     (if lnxPath = [] then Inr (Some (None, [say ''vhost usage: --config <lnxConfigPath>'']))
      else bindr (ParseConfig file) (\<lambda>r.
        case r of
          Inl e \<Rightarrow> Inl FatalExit
        | Inr lnxConfig \<Rightarrow>
            bindr (Initialize ns lnxConfig) (\<lambda>(host, es).
              bindo (REPL ns (host, stack host) lines) (\<lambda>(st, fs).
                Inr (Some (Some st, map (\<lambda>e. Out (Ip e)) es @ say ''> '' # fs))))))"

definition vhost_main :: "netstack \<Rightarrow> string \<Rightarrow> string list option \<Rightarrow> (repl_input \<times> string) list \<Rightarrow> (repl_state option \<times> repl_effect list) option res" where
  "vhost_main = startUp (\<lambda>host. Some (newStack host))"

definition vrouter_main :: "netstack \<Rightarrow> string \<Rightarrow> string list option \<Rightarrow> (repl_input \<times> string) list \<Rightarrow> (repl_state option \<times> repl_effect list) option res" where
  "vrouter_main = startUp (\<lambda>router. None)"

section \<open>Properties\<close>

lemma parse16_loop_read: "parse16_loop acc s = (k, True) \<Longrightarrow> acc < 65536 \<Longrightarrow> read_digits acc s = Some k \<and> k < 65536"
  by (induction acc s rule: parse16_loop.induct) (auto split: if_splits)

text \<open>When it succeeds, the parser of ports and identifiers agrees with \<open>ParseUint\<close> of the library.\<close>

lemma ParseUint16_ok: "ParseUint16 s = (w, True) \<Longrightarrow> ParseUint s 16 = Some (unat w)"
proof -
  assume a: "ParseUint16 s = (w, True)"
  then have "s \<noteq> []" by (auto simp: ParseUint16_def)
  with a obtain k where k: "parse16_loop 0 s = (k, True)" "w = of_nat k"
    by (auto simp: ParseUint16_def split: prod.splits)
  with parse16_loop_read [OF k(1)] \<open>s \<noteq> []\<close> show ?thesis by (simp add: ParseUint_def unat_of_nat)
qed

text \<open>
  Some commands stop the process: on a router, which has no TCP stack, listing sockets, connecting
  and closing; on a host, writing to or reading from a listening socket; on both, sending to
  something that is not an address.
\<close>

lemma repl_crashes:
  assumes "ParseUint16 x = (sid, True)" "lookupSID t sid = Some (Listen l)" "ParseUint16 y = (num, True)"
    and "ParseAddr a = None" "ParseAddr b = Some addr"
  shows "REPL_command ns inp (n, None) [''ls''] = Inl NilPanic \<and>
    REPL_command ns inp (n, None) [''c'', b, y] = Inl NilPanic \<and>
    REPL_command ns inp (n, None) [''cl'', x] = Inl NilPanic \<and>
    REPL_command ns inp (n, Some t) (''s'' # x # m # ms) = Inl AssertPanic \<and>
    REPL_command ns inp (n, Some t) [''r'', x, y] = Inl AssertPanic \<and>
    REPL_command ns inp (n, st) (''send'' # a # m # ms) = Inl ParsePanic"
  using assms
  by (simp add: REPL_command_def withStack_def withSocket_def writeTo_def readFrom_def sendTest_def connect_def MustParseAddr_def)

definition ex_input :: repl_input where
  "ex_input = \<lparr>ri_draws = [], ri_events = [], ri_pause = (id, id), ri_worlds = [], ri_files = (\<lambda>_. None), ri_openError = []\<rparr>"

definition ex_listening :: TCPStack where
  "ex_listening = \<lparr>ts_SocketTable = [(listenKey 80, Listen \<lparr>ls_localPort = 80, ls_SID = 3\<rparr>)], ts_ip = Addr4 0x0a000001,
     ts_SID_to_sk = [(3, listenKey 80)], ts_SID = 4\<rparr>"

section \<open>Commands keep the tables\<close>

text \<open>What a function of a socket, or a whole call, does not change: which socket it is.\<close>

definition same_id :: "NormalSocket \<Rightarrow> NormalSocket \<Rightarrow> bool" where
  "same_id s s' \<longleftrightarrow> so_key s' = so_key s \<and> so_SID s' = so_SID s"

lemma VWrite_turn_id: "VWrite_turn message b new sock = Inr (sock', b', lbw) \<Longrightarrow> same_id sock sock'"
  by (auto simp: VWrite_turn_def Let_def bindr_eq_Inr same_id_def split: option.splits)

lemma VWrite_loop_id:
  "VWrite_loop worlds message b new sock = Inr (Some (sock', lbws)) \<Longrightarrow> \<forall>w \<in> set worlds. \<forall>s. same_id s (w s) \<Longrightarrow> same_id sock sock'"
proof (induction worlds arbitrary: b new sock lbws)
  case Nil
  then show ?case by (subst (asm) VWrite_loop.simps) (auto simp: same_id_def split: if_splits)
next
  case (Cons w worlds)
  from Cons.prems(1) consider "sock' = sock"
    | sock1 b1 lbw lbws' where "VWrite_turn message b new sock = Inr (sock1, b1, lbw)"
        "VWrite_loop worlds message b1 False (w sock1) = Inr (Some (sock', lbws'))"
    by (subst (asm) VWrite_loop.simps) (auto simp: bindr_eq_Inr bindo_eq_Some split: if_splits)
  then show ?case
  proof cases
    case 2
    from Cons.IH [OF 2(2)] Cons.prems(2) VWrite_turn_id [OF 2(1)] show ?thesis by (auto simp: same_id_def)
  qed (simp add: same_id_def)
qed

lemma VWrite_id:
  "VWrite worlds message sock = Inr (Some (Written sock' lbws)) \<Longrightarrow> \<forall>w \<in> set worlds. \<forall>s. same_id s (w s) \<Longrightarrow> same_id sock sock'"
  by (auto simp: VWrite_def bindo_eq_Some split: if_splits intro: VWrite_loop_id)

lemma VRead_id: "VRead sock k ferr = Inr (sock', r) \<Longrightarrow> same_id sock sock'"
  by (auto simp: VRead_def bindr_eq_Inr same_id_def split: if_splits option.splits)

lemma VClose_id: "VClose ns n sock = Inr (Some (sock', es, x)) \<Longrightarrow> same_id sock sock'"
  by (auto simp: VClose_def withBuffers_def Let_def bindr_eq_Inr same_id_def split: option.splits if_splits)

text \<open>A socket changes in place.\<close>

lemma setSocket_ok:
  assumes "stack_ok t" "lookupSID t i = Some (Normal sock)" "same_id sock sock'"
  shows "stack_ok (setSocket t sock')" "lookupSID (setSocket t sock') = (lookupSID t)(i \<mapsto> Normal sock')"
proof -
  obtain sk where sk: "map_of (ts_SID_to_sk t) i = Some sk" "map_of (ts_SocketTable t) sk = Some (Normal sock)"
    using assms(2) by (auto simp: lookupSID_def split: option.splits)
  have id: "sk = so_key sock'" "sk_RemoteAddr sk \<noteq> AddrZero" "so_SID sock' = i"
    using stack_okD(1) [OF assms(1) sk(2)] stack_okD(3) [OF assms(1) sk(1)] sk(2) assms(3) by (auto simp: same_id_def)
  have tab: "map_of (ts_SocketTable (setSocket t sock')) = (map_of (ts_SocketTable t))(sk \<mapsto> Normal sock')"
    by (simp add: setSocket_def update_conv' id(1))
  have uniq: "sid = i" if "map_of (ts_SID_to_sk t) sid = Some sk" for sid
    using stack_okD(3) [OF assms(1) that] stack_okD(3) [OF assms(1) sk(1)] by auto
  have sids: "ts_SID_to_sk (setSocket t sock') = ts_SID_to_sk t" "ts_SID (setSocket t sock') = ts_SID t"
    by (simp_all add: setSocket_def)
  have "distinct (map fst (ts_SocketTable (setSocket t sock')))" "distinct (map fst (ts_SID_to_sk t))"
    using assms(1) by (simp_all add: setSocket_def distinct_update stack_ok_def)
  moreover have "socket_at k v \<and> map_of (ts_SID_to_sk t) (getSID v) = Some k" if "((map_of (ts_SocketTable t))(sk \<mapsto> Normal sock')) k = Some v" for k v
    using that stack_okD(1,2) [OF assms(1), of k v] sk(1) id by (cases "k = sk") auto
  moreover have "(\<exists>v. ((map_of (ts_SocketTable t))(sk \<mapsto> Normal sock')) k = Some v \<and> getSID v = sid) \<and> sid < ts_SID t"
    if "map_of (ts_SID_to_sk t) sid = Some k" for sid k
    using that stack_okD(3,4) [OF assms(1), of sid k] uniq id(3) by (cases "k = sk") auto
  ultimately show "stack_ok (setSocket t sock')" unfolding stack_ok_def tab sids by blast
  show "lookupSID (setSocket t sock') = (lookupSID t)(i \<mapsto> Normal sock')"
  proof
    fix j
    show "lookupSID (setSocket t sock') j = ((lookupSID t)(i \<mapsto> Normal sock')) j"
    proof (cases "j = i")
      case False
      then have "map_of (ts_SID_to_sk t) j \<noteq> Some sk" using uniq by blast
      with False show ?thesis by (simp add: lookupSID_def sids tab split: option.split)
    qed (simp add: lookupSID_def sids tab sk(1))
  qed
qed

definition keeps_tables :: "Node \<Rightarrow> TCPStack \<Rightarrow> u16 option \<Rightarrow> repl_result \<Rightarrow> bool" where
  "keeps_tables n t named r \<longleftrightarrow> (\<forall>n' st es. r = Inr (Some ((n', st), es)) \<longrightarrow> n' = n \<and>
     (\<exists>t'. st = Some t' \<and> stack_ok t' \<and> (\<forall>sid s. lookupSID t sid = Some s \<and> named \<noteq> Some sid \<longrightarrow> lookupSID t' sid = Some s)))"

lemma keeps_same: "stack_ok t \<Longrightarrow> keeps_tables n t named (Inr (Some ((n, Some t), es)))"
  by (simp add: keeps_tables_def)

lemma keeps_fault [simp]: "keeps_tables n t named (Inl f)" "keeps_tables n t named (Inr None)"
  by (simp_all add: keeps_tables_def)

lemma keeps_bindr: "(\<And>x. m = Inr x \<Longrightarrow> keeps_tables n t named (f x)) \<Longrightarrow> keeps_tables n t named (bindr m f)"
  by (cases m) simp_all

lemma keeps_bindo: "(\<And>x. m = Inr (Some x) \<Longrightarrow> keeps_tables n t named (f x)) \<Longrightarrow> keeps_tables n t named (bindo m f)"
  by (cases m) (auto simp: bindo_def split: option.split)

text \<open>A new identifier hides no socket.\<close>

lemma lookup_new: "stack_ok t \<Longrightarrow> lookupSID t (ts_SID t) = None"
  using SID_fresh by (simp add: lookupSID_def)

lemma keeps_set:
  assumes "stack_ok t" "lookupSID t i = Some (Normal sock)" "same_id sock sock'"
  shows "keeps_tables n t (Some i) (Inr (Some ((n, Some (setSocket t sock')), es)))"
  using setSocket_ok [OF assms] by (auto simp: keeps_tables_def)

lemma withSocket_keeps:
  assumes "stack_ok t" "\<And>socket. lookupSID t (fst (ParseUint16 w)) = Some socket \<Longrightarrow> keeps_tables n t (Some (fst (ParseUint16 w))) (f t socket)"
  shows "keeps_tables n t (Some (fst (ParseUint16 w))) (withSocket n (Some t) complaint w f)"
  using assms by (cases "ParseUint16 w") (auto simp: withSocket_def withStack_def keeps_same split: option.split)

definition steady :: "repl_input \<Rightarrow> bool" where
  "steady inp \<longleftrightarrow> (\<forall>w \<in> set (ri_worlds inp) \<union> {fst (ri_pause inp), snd (ri_pause inp)}. \<forall>s. same_id s (w s))"

lemma writeTo_keeps:
  assumes "stack_ok t" "steady inp" "lookupSID t i = Some socket"
  shows "keeps_tables n t (Some i) (writeTo inp n message t socket)"
proof (cases socket)
  case (Normal sock)
  have "\<forall>w \<in> set (ri_worlds inp). \<forall>s. same_id s (w s)" using assms(2) by (simp add: steady_def)
  with Normal assms(1,3) show ?thesis
    by (auto simp: writeTo_def split: write_result.split intro!: keeps_bindo keeps_same keeps_set dest: VWrite_id)
qed (simp add: writeTo_def)

lemma readFrom_keeps:
  assumes "stack_ok t" "lookupSID t i = Some socket"
  shows "keeps_tables n t (Some i) (readFrom n num t socket)"
  using assms
  by (cases socket) (auto simp: readFrom_def split: read_result.split prod.split intro!: keeps_bindr keeps_same keeps_set dest: VRead_id)

lemma closeSocket_keeps:
  assumes "stack_ok t" "lookupSID t i = Some socket"
  shows "keeps_tables n t (Some i) (closeSocket ns n t socket)"
proof (cases socket)
  case (Normal sock)
  with assms show ?thesis
    by (auto simp: closeSocket_def split: prod.split intro!: keeps_bindo keeps_set dest: VClose_id)
next
  case (Listen l)
  then have "getSID (Listen l) = i" using lookupSID_SID [OF assms] by simp
  with assms Listen stack_ok_del [OF assms(1), of "Listen l"] lookupSID_del [OF assms(1), of "Listen l"] show ?thesis
    by (auto simp: closeSocket_def VClose_listen_def keeps_tables_def)
qed

text \<open>No connection uses the local port that is drawn.\<close>

definition port_free :: "TCPStack \<Rightarrow> nat list \<Rightarrow> bool" where
  "port_free t draws \<longleftrightarrow> (\<forall>port. pickPort t draws = Some port \<longrightarrow> (\<forall>sk s. map_of (ts_SocketTable t) sk = Some s \<longrightarrow> sk_LocalPort sk \<noteq> port))"

lemma VConnect_keeps:
  assumes "stack_ok t" "ts_SID t \<noteq> 0xffff" "port_free t draws" "destAddr \<noteq> AddrZero"
    and "VConnect ns n t destAddr destPort draws events = Inr (Some (t', es, c))"
  shows "stack_ok t' \<and> (c \<noteq> Pending \<longrightarrow> (\<forall>sid s. lookupSID t sid = Some s \<longrightarrow> lookupSID t' sid = Some s)) \<and>
    (\<forall>sock. c = Connected sock \<longrightarrow> lookupSID t' (ts_SID t) = Some (Normal sock))"
proof -
  obtain port where port: "pickPort t draws = Some port"
    using assms(5) by (cases "pickPort t draws") (simp_all add: VConnect_def)
  let ?sk = "\<lparr>sk_LocalAddr = ts_ip t, sk_LocalPort = port, sk_RemoteAddr = destAddr, sk_RemotePort = destPort\<rparr>"
  have "map_of (ts_SocketTable t) ?sk = None"
    using assms(3) port by (cases "map_of (ts_SocketTable t) ?sk") (auto simp: port_free_def)
  from VConnect_registry [OF assms(1,2,4) port this assms(5)] lookup_new [OF assms(1)] show ?thesis
    by (cases c) auto
qed

lemma connect_keeps:
  assumes "stack_ok t" "ts_SID t \<noteq> 0xffff" "port_free t (ri_draws inp)"
  shows "keeps_tables n t None (connect ns inp n (Some t) vip ps)"
proof -
  have "keeps_tables n t None (Inr (Some ((n, Some t'), fs)))"
    if "ParseAddr vip = Some a" "VConnect ns n t a port (ri_draws inp) (ri_events inp) = Inr (Some (t', es, c))" "c \<noteq> Pending" for a port t' es c fs
  proof -
    have "a \<noteq> AddrZero" using that(1) by auto
    with VConnect_keeps [OF assms _ that(2)] that(3) show ?thesis by (auto simp: keeps_tables_def)
  qed
  then show ?thesis
    using assms(1)
    by (auto simp: connect_def withStack_def MustParseAddr_def Let_def keeps_same split: prod.split option.split connection.split
      intro!: keeps_bindr keeps_bindo)
qed

lemma SendFile_cases:
  assumes "SendFile ns n t (Some bs) addr port draws events (pause, pause') worlds = Inr (Some (t', es, r))"
  shows "\<exists>t1 fs c. VConnect ns n t addr port draws events = Inr (Some (t1, fs, c)) \<and> c \<noteq> Pending \<and>
    (t' = t1 \<or> (\<exists>sock sock1 lbws sock2 gs x. c = Connected sock \<and> VWrite worlds bs (pause sock) = Inr (Some (Written sock1 lbws)) \<and>
       VClose ns n (pause' sock1) = Inr (Some (sock2, gs, x)) \<and>
       t' = t1\<lparr>ts_SocketTable := AList.update (so_key sock) (Normal sock2) (ts_SocketTable t1)\<rparr>))"
proof -
  from assms have "\<exists>x. VConnect ns n t addr port draws events = Inr (Some x)"
    unfolding SendFile_def by (simp only: prod.case option.case bindo_eq_Some) blast
  then obtain t1 fs c where c: "VConnect ns n t addr port draws events = Inr (Some (t1, fs, c))" by (metis prod.exhaust)
  show ?thesis
  proof (cases c)
    case (Connected sock)
    let ?fs = "map Ip (fs @ [Print (show_nat (length bs))])"
    from assms c Connected obtain w where w: "VWrite worlds bs (pause sock) = Inr (Some w)"
      "(case w of
         WriteClosed \<Rightarrow> Inr (Some (t1, ?fs @ [Ip (Print ''sock closed'')], SocketClosed (so_key sock)))
       | Written sock1 lbws \<Rightarrow>
           bindo (VClose ns n (pause' sock1)) (\<lambda>(sock2, gs, awaited).
             Inr (Some (t1\<lparr>ts_SocketTable := AList.update (so_key sock) (Normal sock2) (ts_SocketTable t1)\<rparr>,
               ?fs @ gs, Transferred (so_key sock) awaited)))) = Inr (Some (t', es, r))"
      unfolding SendFile_def by (simp only: prod.case option.case connection.case bindo_simps bindo_eq_Some Let_def) blast
    show ?thesis
    proof (cases w)
      case (Written sock1 lbws)
      from w(2) Written have "\<exists>sock2 gs x. VClose ns n (pause' sock1) = Inr (Some (sock2, gs, x)) \<and>
          t' = t1\<lparr>ts_SocketTable := AList.update (so_key sock) (Normal sock2) (ts_SocketTable t1)\<rparr>"
        by (cases "VClose ns n (pause' sock1)") (auto simp: bindo_def split: option.splits prod.splits)
      with c w(1) Written Connected show ?thesis by blast
    qed (use w(2) c Connected in simp)
  qed (use assms c in \<open>simp_all add: SendFile_def\<close>)
qed

lemma SendFile_keeps:
  assumes "stack_ok t" "ts_SID t \<noteq> 0xffff" "port_free t draws" "addr \<noteq> AddrZero" "\<forall>w \<in> set worlds \<union> {fst ps, snd ps}. \<forall>s. same_id s (w s)"
    and "SendFile ns n t content addr port draws events ps worlds = Inr (Some (t', es, r))"
  shows "stack_ok t' \<and> (\<forall>sid s. lookupSID t sid = Some s \<longrightarrow> lookupSID t' sid = Some s)"
proof (cases content)
  case None
  with assms(1,6) show ?thesis by (cases ps) (simp add: SendFile_def)
next
  case (Some bs)
  obtain pause pause' where ps: "ps = (pause, pause')" by (cases ps)
  from SendFile_cases [OF assms(6) [unfolded Some ps]] obtain t1 fs c where
    c: "VConnect ns n t addr port draws events = Inr (Some (t1, fs, c))" "c \<noteq> Pending"
    and t': "t' = t1 \<or> (\<exists>sock sock1 lbws sock2 gs x. c = Connected sock \<and> VWrite worlds bs (pause sock) = Inr (Some (Written sock1 lbws)) \<and>
       VClose ns n (pause' sock1) = Inr (Some (sock2, gs, x)) \<and>
       t' = t1\<lparr>ts_SocketTable := AList.update (so_key sock) (Normal sock2) (ts_SocketTable t1)\<rparr>)"
    by (elim exE conjE)
  note k = VConnect_keeps [OF assms(1-4) c(1)]
  from t' show ?thesis
  proof (elim disjE exE conjE)
    fix sock sock1 lbws sock2 gs x
    assume s: "c = Connected sock" "VWrite worlds bs (pause sock) = Inr (Some (Written sock1 lbws))"
      "VClose ns n (pause' sock1) = Inr (Some (sock2, gs, x))"
      "t' = t1\<lparr>ts_SocketTable := AList.update (so_key sock) (Normal sock2) (ts_SocketTable t1)\<rparr>"
    have p: "same_id v (pause v)" "same_id v (pause' v)" for v using assms(5) by (simp_all add: ps)
    have id: "same_id sock sock2"
      using VWrite_id [OF s(2)] VClose_id [OF s(3)] p(1) [of sock] p(2) [of sock1] assms(5) by (simp add: same_id_def ps)
    then have "t' = setSocket t1 sock2" by (simp add: s(4) setSocket_def same_id_def)
    moreover have "lookupSID t1 (ts_SID t) = Some (Normal sock)" "stack_ok t1" using k s(1) by blast+
    ultimately show ?thesis
      using setSocket_ok [of t1 "ts_SID t" sock sock2] id k c(2) lookup_new [OF assms(1)] by auto
  qed (use k c(2) in blast)
qed

lemma sendFileTo_keeps:
  assumes "stack_ok t" "ts_SID t \<noteq> 0xffff" "port_free t (ri_draws inp)" "steady inp"
  shows "keeps_tables n t None (sendFileTo ns inp n (Some t) name vip ps)"
proof -
  have "keeps_tables n t None (Inr (Some ((n, Some t'), fs)))"
    if "ParseAddr vip = Some a"
      "SendFile ns n t content a port (ri_draws inp) (ri_events inp) (ri_pause inp) (ri_worlds inp) = Inr (Some (t', es, r))" for a content port t' es r fs
  proof -
    have "a \<noteq> AddrZero" using that(1) by auto
    from SendFile_keeps [OF assms(1-3) this _ that(2)] assms(4) show ?thesis by (simp add: keeps_tables_def steady_def)
  qed
  then show ?thesis
    using assms(1)
    by (auto simp: sendFileTo_def withStack_def MustParseAddr_def keeps_same split: prod.split option.split
      intro!: keeps_bindr keeps_bindo)
qed

lemma receiveFileFrom_keeps:
  assumes "stack_ok t" "ts_SID t \<noteq> 0xffff"
  shows "keeps_tables n t None (receiveFileFrom n (Some t) name ps)"
proof -
  have "keeps_tables n t None (Inr (Some ((n, Some t'), es)))" if "VListen t port = Inr (t', l)" for port t' l es
    using VListen_correct [OF assms, of port] that lookup_new [OF assms(1)]
    by (auto simp: keeps_tables_def VListen_def Let_def split: if_splits)
  then show ?thesis
    using assms(1) by (auto simp: receiveFileFrom_def withStack_def keeps_same split: prod.split sum.split)
qed

lemma toggle_keeps: "reachable ns cfg n \<Longrightarrow> stack_ok t \<Longrightarrow> keeps_tables n t None (toggle n (Some t) name b)"
  by (simp add: toggle_def ToggleInterface_result keeps_same)

lemma sendTest_keeps: "stack_ok t \<Longrightarrow> keeps_tables n t None (sendTest ns n (Some t) vip message)"
  by (auto simp: sendTest_def keeps_same split: prod.split intro!: keeps_bindr)

text \<open>The identifier a command names.\<close>

definition named_socket :: "string list \<Rightarrow> u16 option" where
  "named_socket tokens =
     (if tokens ! 0 \<in> {''s'', ''r'', ''cl''} \<and> 2 \<le> length tokens then Some (fst (ParseUint16 (tokens ! 1))) else None)"

lemma keeps_none: "keeps_tables n t None r \<Longrightarrow> keeps_tables n t named r"
  by (auto simp: keeps_tables_def)

lemma keeps_if:
  "(c \<Longrightarrow> keeps_tables n t named a) \<Longrightarrow> (\<not> c \<Longrightarrow> keeps_tables n t named b) \<Longrightarrow> keeps_tables n t named (if c then a else b)"
  by simp

text \<open>
  C40. What a user types on a host keeps the tables. On a node that its configuration led to, with
  consistent socket tables and identifiers left, a command that returns has not changed the node;
  the socket tables are consistent again, and every socket other than the one the command names by
  its identifier is found as it was before. It is assumed that no connection uses the local port
  that is drawn, and that the other threads never change a socket's addresses or identifier.
\<close>

theorem commands_keep_tables:
  assumes "reachable ns cfg n" "stack_ok t" "ts_SID t \<noteq> 0xffff" "port_free t (ri_draws inp)" "steady inp"
    and "REPL_command ns inp (n, Some t) tokens = Inr (Some ((n', st), es))"
  shows "n' = n \<and> (\<exists>t'. st = Some t' \<and> stack_ok t' \<and>
    (\<forall>sid s. lookupSID t sid = Some s \<and> named_socket tokens \<noteq> Some sid \<longrightarrow> lookupSID t' sid = Some s))"
proof -
  let ?keeps = "keeps_tables n t (named_socket tokens)"
  note none = keeps_none [OF connect_keeps] keeps_none [OF sendFileTo_keeps] keeps_none [OF receiveFileFrom_keeps]
    keeps_none [OF toggle_keeps] keeps_none [OF sendTest_keeps]
  have sid: "?keeps (withSocket n (Some t) complaint (tl tokens ! 0) f)"
    if "tokens ! 0 \<in> {''s'', ''r'', ''cl''}" "2 \<le> length tokens" "\<And>i socket. lookupSID t i = Some socket \<Longrightarrow> keeps_tables n t (Some i) (f t socket)"
    for complaint f
  proof -
    have "keeps_tables n t (Some (fst (ParseUint16 (tl tokens ! 0)))) (withSocket n (Some t) complaint (tl tokens ! 0) f)"
      by (rule withSocket_keeps [OF assms(2)]) (rule that(3))
    moreover have "named_socket tokens = Some (fst (ParseUint16 (tl tokens ! 0)))"
      using that(1,2) by (simp add: named_socket_def nth_tl)
    ultimately show ?thesis by simp
  qed
  have "?keeps (REPL_command ns inp (n, Some t) tokens)"
    unfolding REPL_command_def Let_def prod.case
    by (intro keeps_if)
      (auto intro!: none sid keeps_same writeTo_keeps readFrom_keeps closeSocket_keeps assms(1-5) simp: withStack_def keeps_same assms(2)
        split: prod.split)
  with assms(6) show ?thesis by (simp add: keeps_tables_def)
qed

lemma ex_listening_ok: "stack_ok ex_listening"
  by (auto simp: stack_ok_def ex_listening_def listenKey_def split: if_splits)

theorem commands_keep_tables_witness:
  "\<exists>t'. REPL_command ref_netstack ex_input (ex_node, Some ex_listening) [''rf'', ''out.txt'', ''90''] =
       Inr (Some ((ex_node, Some t'), [SpawnReceive ''out.txt'' \<lparr>ls_localPort = 90, ls_SID = 4\<rparr>])) \<and>
     stack_ok t' \<and> lookupSID t' 3 = Some (Listen \<lparr>ls_localPort = 80, ls_SID = 3\<rparr>)"
proof -
  have p: "ParseUint16 ''90'' = (90, True)" by (simp add: ParseUint16_def is_digit_def digit_val_def)
  obtain t' where r: "REPL_command ref_netstack ex_input (ex_node, Some ex_listening) [''rf'', ''out.txt'', ''90''] =
      Inr (Some ((ex_node, Some t'), [SpawnReceive ''out.txt'' \<lparr>ls_localPort = 90, ls_SID = 4\<rparr>]))"
    by (simp add: REPL_command_def receiveFileFrom_def p withStack_def VListen_def ex_listening_def listenKey_def Let_def)
  have "port_free ex_listening (ri_draws ex_input)" "steady ex_input" "ts_SID ex_listening \<noteq> 0xffff"
    by (simp_all add: port_free_def steady_def same_id_def ex_input_def ex_listening_def)
  moreover have "lookupSID ex_listening 3 = Some (Listen \<lparr>ls_localPort = 80, ls_SID = 3\<rparr>)" "named_socket [''rf'', ''out.txt'', ''90''] = None"
    by (simp_all add: lookupSID_def ex_listening_def named_socket_def)
  ultimately show ?thesis
    using commands_keep_tables [OF ex_node_reachable ex_listening_ok _ _ _ r] r by auto
qed

text \<open>
  C39. A host comes up: a configuration file that parses, whose interfaces and neighbours have IPv4
  addresses and whose neighbours are reached through its interfaces, leads to a running node with
  an empty socket table; the first prompt appears after one RIP request to every neighbour.
\<close>

theorem host_starts:
  assumes "lnxPath \<noteq> []" "ParseConfig file = Inr (Inr cfg)" "\<forall>i \<in> set (cfg_Interfaces cfg). Is4 (ic_AssignedIP i)"
    and "\<forall>nb \<in> set (cfg_Neighbors cfg). Is4 (nc_DestAddr nb) \<and> nc_InterfaceName nb \<in> ic_Name ` set (cfg_Interfaces cfg)"
  shows "\<exists>node es. vhost_main ns lnxPath file [] = Inr (Some (Some (node, Some (newStack node)), es @ [say ''> ''])) \<and>
    reachable ns cfg node \<and> rip_ready node \<and> length es = length (cfg_RipNeighbors cfg) \<and> stack_ok (newStack node)"
proof -
  have "config_ok emptyConfig" by (simp add: config_ok_def emptyConfig_def)
  then have "config_ok cfg" using assms(2) parseLines_ok by (auto simp: ParseConfig_def split: option.splits)
  with assms(3,4) have c: "consistent cfg" by (simp add: consistent_def)
  from Initialize_defined [OF c, of ns] obtain node es where
    i: "Initialize ns cfg = Inr (node, es)" "length es = length (cfg_RipNeighbors cfg)"
      "node = initialised cfg (n_forwardingTable (startNode cfg))" by blast
  have "rip_ready node" unfolding i(3) by (rule rip_ready_initialised [OF c])
  moreover have "reachable ns cfg node" using i(1) by (rule reachable.start)
  moreover have "stack_ok (newStack node)" by (simp add: stack_ok_def newStack_def)
  ultimately show ?thesis
    using i(1,2) assms(1,2)
    by (intro exI [of _ node] exI [of _ "map (\<lambda>e. Out (Ip e)) es"]) (simp add: vhost_main_def startUp_def)
qed

definition ex_interface :: InterfaceConfig where
  "ex_interface = \<lparr>ic_Name = ''if0'', ic_AssignedIP = Addr4 0x0a010001, ic_AssignedPrefix = Prefix (Addr4 0x0a010000) 24,
     ic_UDPAddr = \<lparr>ap_Addr = Addr4 0x7f000001, ap_Port = 5000\<rparr>\<rparr>"

lemma ex_prefix: "ParsePrefix ''10.1.0.1/24'' = Some (Prefix (Addr4 0x0a010001) 24)"
  by code_simp

lemma ex_addrport: "ParseAddrPort ''127.0.0.1:5000'' = Some \<lparr>ap_Addr = Addr4 0x7f000001, ap_Port = 5000\<rparr>"
proof -
  have "ParseAddr ''127.0.0.1'' = Some (Addr4 0x7f000001)" by code_simp
  moreover have "ParseUint ''5000'' 16 = Some 5000" by (simp add: ParseUint_def is_digit_def digit_val_def)
  moreover have "split_last (CHR '':'') ''127.0.0.1:5000'' = Some (''127.0.0.1'', ''5000'')" by code_simp
  ultimately show ?thesis by (simp add: ParseAddrPort_def)
qed

lemma ex_masked: "Masked (Prefix (Addr4 0x0a010001) 24) = Prefix (Addr4 0x0a010000) 24"
  by code_simp

lemma ex_fields:
  "fscanf (fmt_lit ''interface'' @ [FSpace, FStr, FSpace, FStr, FSpace, FStr]) ''interface if0 10.1.0.1/24 127.0.0.1:5000'' =
     Some [''if0'', ''10.1.0.1/24'', ''127.0.0.1:5000'']"
  by code_simp

lemma ex_file: "ParseConfig (Some [''interface if0 10.1.0.1/24 127.0.0.1:5000'', ''routing rip'']) =
  Inr (Inr (emptyConfig\<lparr>cfg_Interfaces := [ex_interface], cfg_RoutingMode := RoutingTypeRIP\<rparr>))"
  by (simp add: ParseConfig_def parseLine_def parseCommands_def parseInterface_def parseRouting_def ex_prefix ex_addrport ex_masked
    ex_fields ex_interface_def emptyConfig_def del: Masked.simps)

theorem host_starts_witness:
  "\<exists>node es. vhost_main ref_netstack ''h1.lnx'' (Some [''interface if0 10.1.0.1/24 127.0.0.1:5000'', ''routing rip'']) [] =
      Inr (Some (Some (node, Some (newStack node)), es @ [say ''> ''])) \<and> rip_ready node \<and> es = []"
proof -
  let ?c = "emptyConfig\<lparr>cfg_Interfaces := [ex_interface], cfg_RoutingMode := RoutingTypeRIP\<rparr>"
  have i: "\<forall>i \<in> set (cfg_Interfaces ?c). Is4 (ic_AssignedIP i)" by (simp add: ex_interface_def)
  have "\<forall>nb \<in> set (cfg_Neighbors ?c). Is4 (nc_DestAddr nb) \<and> nc_InterfaceName nb \<in> ic_Name ` set (cfg_Interfaces ?c)"
    by (simp add: emptyConfig_def)
  from host_starts [OF _ ex_file i this, of "''h1.lnx''" ref_netstack] show ?thesis by (auto simp: emptyConfig_def)
qed

end
