(* ===== verification/Spec2Isabelle.thy ===== *)
theory Spec2Isabelle
  imports Repl
begin

text \<open>
  Verification of a userspace IP and TCP implementation in Go: hosts and routers that exchange IP
  packets over UDP sockets, learn routes by RIP, and on hosts run TCP connections under a small
  command line.

  \<^bold>\<open>Parts of the program and the theories that model them\<close> (paths below \<open>src/\<close>).

  \<^item> \<open>Prelude\<close>: words for Go's unsigned integers, slices with their hidden capacity, panics and
    \<open>log.Fatal\<close> as the type \<open>fault\<close>, \<open>'a res = fault + 'a\<close> with \<open>bindr\<close>. Maps are association lists.
  \<^item> \<open>Netip\<close>: what is used of the standard library: \<open>net/netip\<close>, \<open>strconv\<close>, \<open>encoding/binary\<close>.
  \<^item> \<open>Ipv4_Header\<close>: \<open>pkg/iptcp-headers/ipv4header.go\<close>. \<open>Iptcp_Utils\<close>: \<open>pkg/iptcp_utils\<close>. The header
    package of gVisor is not part of the repository: it is the record \<open>netstack\<close>, a parameter of
    everything that uses it. The predicates \<open>netstack_flags\<close>, \<open>netstack_checksum\<close> and \<open>netstack_codec\<close>
    say what is used of its documentation; \<open>ref_netstack\<close> satisfies them.
  \<^item> \<open>Rip\<close>: \<open>pkg/rip/rip.go\<close>. \<open>Pq\<close>: \<open>pkg/pq/pq.go\<close> with \<open>container/heap\<close>. \<open>Lnxconfig\<close>:
    \<open>pkg/lnxconfig/lnxconfig.go\<close>.
  \<^item> \<open>Node\<close>, \<open>Node_Rip\<close>, \<open>Node_Run\<close>: \<open>pkg/node/node.go\<close>. The record \<open>Node\<close> is the struct; every
    function and every turn of a goroutine is a definition that returns the new node and a list of
    \<open>effect\<close>s: packets for an interface, messages to a channel, output.
  \<^item> \<open>Tcp_Stack\<close>, \<open>Tcp_Handshake\<close>, \<open>Tcp_Ring\<close>, \<open>Tcp_Receive\<close>, \<open>Tcp_Send\<close>, \<open>Tcp_Close\<close>:
    \<open>pkg/tcpstack/tcpstack.go\<close>, in that order: tables and segments; \<open>VListen\<close>, \<open>VConnect\<close>, \<open>VAccept\<close>;
    the circular buffers; \<open>ReceiverThread\<close> and \<open>VRead\<close>; \<open>VWrite\<close>, \<open>SenderThread\<close>, \<open>slidingWindow\<close>,
    \<open>retransThread\<close>; \<open>VClose\<close>, \<open>SendFile\<close>, \<open>ReceiveFile\<close>.
  \<^item> \<open>Repl\<close>: \<open>pkg/repl/repl.go\<close>, \<open>cmd/vhost\<close>, \<open>cmd/vrouter\<close>.

  \<^bold>\<open>Goroutines.\<close> A goroutine is the function of one turn of its loop, and takes what it receives
  in that turn as an argument: the segment, timeouts, clock readings, random numbers. Where a
  function runs on while others change the socket, the changes are functions among its arguments.
  A mutex of a socket is a Boolean; waiting for a locked one, or for input that does not come, is
  the result \<open>Inr None\<close>, different from a panic \<open>Inl f\<close>. Time is a number of nanoseconds. Go
  iterates over maps in any order; \<open>Forwarding\<close> shows that the forwarding decision does not depend
  on it.

  \<^bold>\<open>What is shown.\<close>

  \<^item> Codecs: round trips of IPv4 headers and RIP messages; the way of a segment through
    \<open>marshallTCPPacket\<close>, an IP packet, \<open>protocol6\<close> and \<open>demux\<close> to the channel of its socket.
  \<^item> \<open>Pq\<close>: the heap algorithms over the contract of \<open>heap.Interface\<close> (locale \<open>heap_interface\<close>), and
    the queue as a priority queue (locale \<open>priority_queue\<close>).
  \<^item> \<open>Forwarding\<close>, \<open>Node_Packets\<close>: longest prefix match (locale \<open>longest_match\<close>, for both loops of
    the code), delivery, forwarding with a decreasing TTL, termination of forwarding.
  \<^item> \<open>Routing\<close>: what one RIP update does to a table; no loop between two nodes; which routes are
    learned, withdrawn, collected.
  \<^item> \<open>Node_Life\<close>: an invariant of every node that a consistent configuration leads to.
  \<^item> \<open>Tcp_Stack\<close>, \<open>Tcp_Handshake\<close>: the two tables as a registry (locale \<open>registry\<close>), the handshake
    between two models of the code, that connecting ends.
  \<^item> \<open>Tcp_Ring\<close>, \<open>Tcp_Receive\<close>, \<open>Tcp_Stream\<close>: both buffers are bounded byte queues (locale
    \<open>byte_queue\<close>); the receiver refines the peer's stream whatever the order of arrival; the sender
    cuts its payload into segments of one stream, whatever the other threads do meanwhile within
    the limits of \<open>sender_rely\<close>, which they are shown to keep. The theorem below joins both ends.
  \<^item> \<open>Tcp_Send\<close>, \<open>Tcp_Close\<close>: bounds of the timeout; when a close of both ends completes.
  \<^item> \<open>Repl\<close>: start-up; every command keeps the node and the socket tables consistent.
  \<^item> Lemmas on behaviour the code does not handle: old segments, an unexpected FIN, duplicate
    acknowledgements, probes of a closed window, packets with an unknown protocol, and others.

  \<^bold>\<open>Bounds.\<close> Words have the widths of the source, so that indices and sequence numbers wrap as they
  do there. Theorems about a stream assume that it does not reach the end of the sequence numbers
  (the code compares them without wrap-around), and those about one payload that it has at most
  65535 bytes, the size of the buffers. The fuel of \<open>drain_early\<close> is the number of early segments,
  each of which is taken out at most once; loops that wait for events recurse over the list of
  these. The runs in \<open>Tcp_Stream\<close> leave out probes of a closed window, which misalign the stream
  (\<open>probe_misaligns\<close>), and acknowledge only what was sent.

  \<^bold>\<open>Not modelled.\<close> The scheduler and the memory model: turns are atomic, data races inside a turn
  are not seen. The UDP sockets, the file system and the terminal are inputs and effects. The timer
  that starts \<open>retransThread\<close> is an input, not a clock. \<open>float64\<close> is real arithmetic with
  an arbitrary rounding function. \<open>IPv4Header.String\<close> and the sample value \<open>LnxConfig\<close> are not used by
  the program. Strings are ASCII. The prebuilt binaries, network descriptions and
  scripts in \<open>reference\<close>, \<open>nets\<close>, \<open>tests\<close> and \<open>util\<close> are not part of the implementation.
\<close>

section \<open>From one socket to the other\<close>

lemma pieces_of_cut:
  assumes "cut_upto k flags P u0 t ps cs" "u0 = isn + 1" "unat isn + 1 < 4294967296"
  shows "map (piece isn) (map (segmentInfo ip) ps) = segments 0 cs"
proof -
  have "unat u0 = unat isn + 1" using assms(2,3) by (simp add: unat_word_ariths)
  then have "piece isn (segmentInfo ip p) = cut u0 p" for p
    by (simp add: piece_def segmentInfo_def offset_def cut_def)
  then show ?thesis using assms(1) by (simp add: cut_upto_def comp_def)
qed

lemma received_cut:
  assumes "cut_upto k flags P u0 t ps cs" "p \<in> set ps" "u0 = isn + 1" "unat isn + 1 < 4294967296"
    and "netstack_flags ns" "flags = ns_FlagAck ns" "reaches ns n (sk_LocalAddr k)"
  shows "data_segment ns (segmentInfo ip p) \<and> can_reply ns n (segmentInfo ip p) \<and> isn < ti_SeqNum (segmentInfo ip p)"
proof -
  have p: "tp_sourceIp p = sk_LocalAddr k" "tp_flags p = ns_FlagAck ns" "u0 \<le> tp_seqNum p"
    using assms(1,2,6) by (auto simp: cut_upto_def from_to_def)
  have "unat u0 = unat isn + 1" using assms(3,4) by (simp add: unat_word_ariths)
  then have "isn < tp_seqNum p" using p(3) by (simp add: word_le_nat_alt word_less_nat_alt)
  with p assms(5,7) show ?thesis
    by (simp add: data_segment_def can_reply_def reaches_def segmentInfo_def netstack_flags_def)
qed

text \<open>
  C1. A payload crosses the network. When the loop of \<open>slidingWindow\<close> has ended, without having
  probed a closed window, the IP packets it handed to its node are those of a list of segments; let these arrive at the peer's socket in
  any order. The peer's receiver then returns for each of them, its read buffer holds exactly the
  payload, nothing is left waiting for an earlier segment, and what it acknowledges is the end of
  the payload.
\<close>

theorem stream_transfer:
  assumes run: "transmits ns nC fl packet u0 c sd es" "\<not> sd_bytesSent sd < sd_payloadSize sd"
    and payload: "length (tp_payload packet) \<le> 65535" "tp_flags packet = ns_FlagAck ns"
    and nums: "u0 = isn + 1" "unat isn + 1 + length (tp_payload packet) < 4294967296"
    and peer: "fresh isn s" "netstack_flags ns" "reaches ns nS (sk_LocalAddr (so_key c))"
  shows "\<exists>ps. es = concat (map (onWire ns nC) ps) \<and>
    (\<forall>qs. mset qs = mset ps \<longrightarrow> (\<exists>s' fs rb. receive_all ns nS s (map (segmentInfo ip) qs) = Inr (Some (s', fs)) \<and>
       so_readBuffer s' = Some rb \<and> unread rb = tp_payload packet \<and>
       so_cumReadNXT s' = u0 + of_nat (length (tp_payload packet)) \<and> so_earlyPQ s' = []))"
proof -
  have u0: "unat u0 = unat isn + 1" using nums by (simp add: unat_word_ariths)
  have "unat u0 + length (tp_payload packet) < 4294967296" using u0 nums(2) by simp
  from transmits_cut [OF run(1) payload(1) this] obtain a t ps cs where
    inv: "sending (tp_flags packet) (tp_payload packet) u0 a t c sd" "es = concat (map (onWire ns nC) ps)"
    and cut: "cut_upto (so_key c) (tp_flags packet) (tp_payload packet) u0 t ps cs"
    by (elim exE conjE)
  have cs: "concat cs = tp_payload packet" "\<forall>c \<in> set cs. c \<noteq> []"
    using inv(1) cut run(2) by (simp_all add: sending_def cut_upto_def)
  have isn: "unat isn + 1 < 4294967296" using nums(2) by simp
  have "\<exists>s' fs rb. receive_all ns nS s (map (segmentInfo ip) qs) = Inr (Some (s', fs)) \<and>
       so_readBuffer s' = Some rb \<and> unread rb = tp_payload packet \<and>
       so_cumReadNXT s' = u0 + of_nat (length (tp_payload packet)) \<and> so_earlyPQ s' = []"
    if qs: "mset qs = mset ps" for qs
  proof -
    have "mset (map (piece isn) (map (segmentInfo ip) qs)) = mset (segments 0 cs)"
      unfolding pieces_of_cut [OF cut nums(1) isn, of ip, symmetric] using qs by (simp add: image_mset.compositionality)
    moreover have "\<forall>p \<in> set (map (segmentInfo ip) qs). data_segment ns p \<and> can_reply ns nS p \<and> isn < ti_SeqNum p"
      using received_cut [OF cut _ nums(1) isn peer(2) payload(2) peer(3)] mset_eq_setD [OF qs] by auto
    ultimately show ?thesis
      using receive_all_pieces [OF peer(1), of cs "map (segmentInfo ip) qs" ns nS] nums payload(1) cs(2) unfolding cs(1) by simp
  qed
  with inv(2) show ?thesis by blast
qed

text \<open>A run that ends: three bytes in one segment, acknowledged at once.\<close>

definition ex_acked :: turn where
  "ex_acked = \<lparr>tn_events = [], tn_now = 0, tn_acks = [(0, (ex_data 6001 [])\<lparr>ti_AckNum := 6004\<rparr>)]\<rparr>"

lemma ex_takes:
  assumes "so_unackedNums sock = [(6004, 0)]" "so_writeBuffer sock = Some wb" "so_cumWriteUNA sock = 6001" "\<not> so_unackedMtx sock"
    and "so_key sock = ex_key" "sd_payloadSize sd = 3" "sd_bytesSent sd = 0"
  shows "\<exists>sock' sd'. takeAcks id (tn_acks ex_acked) sock sd = Some (sock', sd') \<and> so_key sock' = ex_key \<and>
    sd_bytesSent sd' = 3 \<and> sd_payloadSize sd' = 3"
proof -
  let ?sock = "sock\<lparr>so_unackedNums := [(6004, 1)], so_ClientWindowSize := 65535, so_cumWriteUNA := 6004,
     so_writeBuffer := Some (wb\<lparr>wb_UNA := (6004 - so_baseSeq sock + WINDOW_SIZE) mod WINDOW_SIZE\<rparr>)\<rparr>"
  obtain sock' nodes where sh: "shrink id 0 6004 ?sock (sd_nodes sd) = (sock', nodes)" by (rule prod.exhaust)
  have "timers_only ?sock sock'" using shrink_frame [of ?sock id 0 6004 "sd_nodes sd"] sh by simp
  then obtain rto srtt where "sock' = ?sock\<lparr>so_RTO := rto, so_SRTT := srtt\<rparr>" unfolding timers_only_def by (rule that)
  then have "so_key sock' = ex_key" using assms(5) by simp
  moreover have "takeAcks id (tn_acks ex_acked) sock sd = Some (sock', sd\<lparr>sd_bytesSent := 3, sd_nodes := nodes\<rparr>)"
    using assms sh by (simp add: ex_acked_def takeAck_def ex_data_def Let_def)
  ultimately show ?thesis using assms(6) by simp
qed

lemma ex_finishes:
  "\<exists>sock sd es. transmits ref_netstack (lan_host 0x0a000001 0x0a000002) id ex_packet 6001 sock sd es \<and> so_key sock = ex_key \<and>
     \<not> sd_bytesSent sd < sd_payloadSize sd"
proof -
  let ?n = "lan_host 0x0a000001 0x0a000002" and ?wb = "newWriteBuffer\<lparr>wb_NXT := 4\<rparr>"
  obtain sd p where sd: "startSending ex_sender ex_packet = Inr sd" "sd_bytesToSend sd = 3" "sd_skip_probe sd" "sd_payloadSize sd = 3"
      "sd_payload sd = []" "sd_bytesSent sd = 0" "window_open sd = Inr True" "wn_packet (sd_tail sd) = Some p"
    by (simp add: startSending_def ex_sender_fields unat_MSS Let_def window_open_def WINDOW_SIZE_def)
  have key: "sk_RemoteAddr (so_key ex_sender) = Addr4 0x0a000002" by (simp add: ex_sender_fields ex_key_def)
  obtain es where es: "HandleSend ref_netstack ?n (Addr4 0x0a000002) (marshallTCPPacket ref_netstack p) 6 = Inr es"
    using lan_host_sends(1) by blast
  have wb: "(wb_NXT newWriteBuffer + 3) mod WINDOW_SIZE = 4" "wb_dist ?wb + 6001 = 6004"
    by (simp_all add: newWriteBuffer_def WINDOW_SIZE_def wb_dist_def)
  obtain sock2 sd2 where send: "sendTail ref_netstack ?n 0 ex_sender sd = Inr (Some (sock2, sd2, map Ip es))"
    and s2: "so_unackedNums sock2 = [(6004, 0)]" "so_writeBuffer sock2 = Some ?wb"
      "so_cumWriteUNA sock2 = 6001" "\<not> so_unackedMtx sock2" "so_key sock2 = ex_key" "sd_payloadSize sd2 = 3" "sd_bytesSent sd2 = 0"
    using sd es key wb by (simp add: sendTail_def ex_sender_fields ex_agree(4) Let_def allocNext_def setTail_def)
  let ?sd3 = "if so_ClientWindowSize sock2 = 0 then sd2\<lparr>sd_skip_probe := False\<rparr> else sd2"
  have sd3: "sd_payloadSize ?sd3 = 3" "sd_bytesSent ?sd3 = 0" using s2(6,7) by simp_all
  from ex_takes [OF s2(1-5) sd3] obtain sock' sd' where take: "takeAcks id (tn_acks ex_acked) sock2 ?sd3 = Some (sock', sd')"
    and ended: "so_key sock' = ex_key" "sd_bytesSent sd' = 3" "sd_payloadSize sd' = 3" by blast
  have probe: "probeStep ref_netstack ?n ex_packet (tn_events ex_acked) ex_sender sd = Inr (Some (ex_sender, sd, [], NoProbe))"
    using sd(3) by (simp add: probeStep_def ex_sender_fields needs_probe_def)
  have start: "transmits ref_netstack ?n id ex_packet 6001 ex_sender sd []"
    using idle_connected [of "ex_data 6000 []" "connectingSocket 0 ex_key"] sd(1)
    by (intro transmits.begin_sending) (simp_all add: ex_sender_fields, simp add: ex_sender_def ex_data_def)
  have now: "sendTail ref_netstack ?n (tn_now ex_acked) ex_sender sd = Inr (Some (sock2, sd2, map Ip es))"
    using send by (simp add: ex_acked_def)
  have acks: "\<forall>x \<in> set (tn_acks ex_acked). sent_ack 6001 sock2 (snd x)"
    using s2(2,3) wb(2) by (simp add: ex_acked_def sent_ack_def)
  have "slidingWindow_turn ref_netstack ?n id ex_packet ex_acked ex_sender sd = Inr (Some (InProgress sock' sd', map Ip es))"
    using now probe take by (simp add: slidingWindow_turn_def Let_def)
  from transmits.next_turn [OF start now acks probe this] ended show ?thesis by fastforce
qed

theorem stream_transfer_witness:
  "\<exists>ps s' fs rb. receive_all ref_netstack (lan_host 0x0a000002 0x0a000001) ex_peer (map (segmentInfo (Addr4 0x0a000002)) (rev ps)) =
     Inr (Some (s', fs)) \<and> so_readBuffer s' = Some rb \<and> unread rb = [1, 2, 3] \<and> so_cumReadNXT s' = 6004"
proof -
  from ex_finishes obtain sock sd es where run: "transmits ref_netstack (lan_host 0x0a000001 0x0a000002) id ex_packet 6001 sock sd es"
      "\<not> sd_bytesSent sd < sd_payloadSize sd" "so_key sock = ex_key" by blast
  have f: "fresh 6000 ex_peer"
    using fresh_accepting [of "ex_data 6000 []" 1 "flipSocketKeyFields ex_key"] by (simp add: ex_peer_def fresh_def ex_data_def)
  have "reaches ref_netstack (lan_host 0x0a000002 0x0a000001) (sk_LocalAddr (so_key sock))"
    using ex_reaches(2) by (simp add: run(3) ex_key_def)
  moreover have "tp_flags ex_packet = ns_FlagAck ref_netstack" by (simp add: ex_sender_fields ref_netstack_def)
  ultimately obtain ps where "\<forall>qs. mset qs = mset ps \<longrightarrow> (\<exists>s' fs rb. receive_all ref_netstack (lan_host 0x0a000002 0x0a000001) ex_peer
      (map (segmentInfo (Addr4 0x0a000002)) qs) = Inr (Some (s', fs)) \<and> so_readBuffer s' = Some rb \<and> unread rb = [1, 2, 3] \<and>
      so_cumReadNXT s' = 6004)"
    using stream_transfer [OF run(1,2) _ _ _ _ f ref_netstack_flags, of "lan_host 0x0a000002 0x0a000001" "Addr4 0x0a000002"]
    by (simp add: ex_sender_fields) blast
  then show ?thesis using mset_rev by blast
qed

end
